theory Spec2Isabelle
  imports Complex_Main "HOL-Library.Word" "HOL-Library.Sublist"
begin

chapter \<open>The program\<close>

section \<open>JavaScript strings\<close>

text \<open>
  A JavaScript string is a sequence of UTF-16 code units. Literals of the source that are
  plain ASCII are written through \<open>js\<close>; the other code units are given by number.
\<close>

type_synonym jschar = "16 word"
type_synonym jsstring = "jschar list"

definition js :: "string \<Rightarrow> jsstring" where
  "js s = map (\<lambda>c. of_nat (of_char c)) s"

text \<open>
  The code units that \<open>String.prototype.trim\<close>, \<open>parseInt\<close> and the regular
  expression class \<open>\s\<close> treat as white space: the WhiteSpace and LineTerminator
  productions of ECMAScript.
\<close>

definition is_ws :: "jschar \<Rightarrow> bool" where
  "is_ws c = (c = 0x09 \<or> c = 0x0A \<or> c = 0x0B \<or> c = 0x0C \<or> c = 0x0D \<or> c = 0x20
     \<or> c = 0xA0 \<or> c = 0x1680 \<or> (0x2000 \<le> c \<and> c \<le> 0x200A) \<or> c = 0x2028 \<or> c = 0x2029
     \<or> c = 0x202F \<or> c = 0x205F \<or> c = 0x3000 \<or> c = 0xFEFF)"

text \<open>The class \<open>\d\<close>, and the digits \<open>parseInt\<close> accepts in radix 10.\<close>

definition is_digit :: "jschar \<Rightarrow> bool" where
  "is_digit c = (0x30 \<le> c \<and> c \<le> 0x39)"

text \<open>\<open>String.prototype.trim\<close>.\<close>

definition trim :: "jsstring \<Rightarrow> jsstring" where
  "trim s = rev (dropWhile is_ws (rev (dropWhile is_ws s)))"

text \<open>\<open>Array.prototype.join\<close> on an array of strings.\<close>

fun join :: "jsstring \<Rightarrow> jsstring list \<Rightarrow> jsstring" where
  "join sep [] = []"
| "join sep [x] = x"
| "join sep (x # y # ys) = x @ sep @ join sep (y # ys)"

text \<open>
  \<open>s.replace(/c/g, rep)\<close> for a pattern that is one literal code unit and a
  replacement without \<open>$\<close>: every occurrence of \<open>c\<close> becomes \<open>rep\<close>.
\<close>

definition replace_all :: "jschar \<Rightarrow> jsstring \<Rightarrow> jsstring \<Rightarrow> jsstring" where
  "replace_all c rep s = concat (map (\<lambda>x. if x = c then rep else [x]) s)"

section \<open>JavaScript values\<close>

text \<open>
  A number is an IEEE double: a finite one is carried by its exact rational value (the
  two zeros are one value, as for \<open>==\<close> and \<open>===\<close>), beside NaN and the infinities.
\<close>

datatype jsnumber = Finite rat | NaN | PosInfinity | NegInfinity

text \<open>
  The values the functions below receive. A \<open>Date\<close> is carried by its time value
  (\<open>None\<close> for an invalid date), a function or symbol (\<open>Opaque\<close>) by its
  \<open>String()\<close> image, an object by its own enumerable string-keyed properties in the
  order of \<open>Object.entries\<close>.
\<close>

datatype jsvalue =
    Undefined
  | Null
  | Bool bool
  | Num jsnumber
  | Str jsstring
  | BigInt int
  | Opaque jsstring
  | DateObj "int option"
  | Arr "jsvalue list"
  | Obj "(jsstring \<times> jsvalue) list"

text \<open>ToBoolean: what \<open>!v\<close>, \<open>v || d\<close> and \<open>if (v)\<close> test.\<close>

fun truthy :: "jsvalue \<Rightarrow> bool" where
  "truthy Undefined = False"
| "truthy Null = False"
| "truthy (Bool b) = b"
| "truthy (Num n) = (n \<noteq> NaN \<and> n \<noteq> Finite 0)"
| "truthy (Str s) = (s \<noteq> [])"
| "truthy (BigInt i) = (i \<noteq> 0)"
| "truthy (Opaque s) = True"
| "truthy (DateObj d) = True"
| "truthy (Arr vs) = True"
| "truthy (Obj kvs) = True"

text \<open>
  \<open>String(v)\<close>: a string is itself. The images of the other values (numbers, arrays,
  objects with their own \<open>toString\<close>) are left to the parameter \<open>fmt\<close>; a conversion
  that throws is not modelled.
\<close>

definition String_js :: "(jsvalue \<Rightarrow> jsstring) \<Rightarrow> jsvalue \<Rightarrow> jsstring" where
  "String_js fmt v = (case v of Str s \<Rightarrow> s | _ \<Rightarrow> fmt v)"

section \<open>escapeHtml\<close>

definition escapeHtml :: "(jsvalue \<Rightarrow> jsstring) \<Rightarrow> jsvalue \<Rightarrow> jsstring" where
  "escapeHtml fmt text =
     (if \<not> truthy text then []
      else replace_all 0x22 (js ''&quot;'')
             (replace_all 0x3E (js ''&gt;'')
               (replace_all 0x3C (js ''&lt;'')
                 (replace_all 0x26 (js ''&amp;'') (String_js fmt text)))))"

text \<open>The four entities \<open>escapeHtml\<close> emits.\<close>

definition entities :: "jsstring list" where
  "entities = [js ''&amp;'', js ''&lt;'', js ''&gt;'', js ''&quot;'']"

text \<open>What the four replacements together make of one code unit.\<close>

definition esc :: "jschar \<Rightarrow> jsstring" where
  "esc c = (if c = 0x26 then js ''&amp;'' else if c = 0x3C then js ''&lt;''
            else if c = 0x3E then js ''&gt;'' else if c = 0x22 then js ''&quot;'' else [c])"

section \<open>Numbers and their decimal form\<close>

text \<open>The decimal digits of a natural number, most significant first.\<close>

fun digits :: "nat \<Rightarrow> jsstring" where
  "digits n = (if n < 10 then [0x30 + of_nat n] else digits (n div 10) @ [0x30 + of_nat (n mod 10)])"

declare digits.simps [simp del]

definition decimal :: "int \<Rightarrow> jsstring" where
  "decimal i = (if i < 0 then 0x2D # digits (nat (- i)) else digits (nat i))"

definition digit_val :: "jschar \<Rightarrow> nat" where
  "digit_val c = unat c - 0x30"

text \<open>
  \<open>parseInt(s, 10)\<close>: leading white space is skipped, one sign is read, and the longest
  run of decimal digits gives the value; no digit at all gives NaN, here \<open>None\<close>.
  The value is the exact integer the digits denote, which is what JavaScript returns
  up to \<open>2^53\<close>; beyond, JavaScript rounds it to the nearest double.
\<close>

definition parseInt10 :: "jsstring \<Rightarrow> int option" where
  "parseInt10 s =
     (let s1 = dropWhile is_ws s;
          neg = (case s1 of [] \<Rightarrow> False | c # r \<Rightarrow> c = 0x2D);
          s2 = (case s1 of [] \<Rightarrow> [] | c # r \<Rightarrow> if c = 0x2D \<or> c = 0x2B then r else s1);
          ds = takeWhile is_digit s2
      in if ds = [] then None
         else Some ((if neg then - 1 else 1) * int (foldl (\<lambda>a d. 10 * a + digit_val d) 0 ds)))"

text \<open>\<open>Number.isInteger\<close> and \<open>Number.isSafeInteger\<close>.\<close>

definition isInteger :: "jsnumber \<Rightarrow> bool" where
  "isInteger n = (case n of Finite q \<Rightarrow> of_int \<lfloor>q\<rfloor> = q | _ \<Rightarrow> False)"

definition isSafeInteger :: "jsnumber \<Rightarrow> bool" where
  "isSafeInteger n =
     (case n of Finite q \<Rightarrow> of_int \<lfloor>q\<rfloor> = q \<and> \<bar>q\<bar> \<le> 2 ^ 53 - 1 | _ \<Rightarrow> False)"

text \<open>
  \<open>String(n)\<close> for an integral double \<open>n\<close>: its decimal numeral. This is what
  JavaScript prints for magnitudes below \<open>10^21\<close>; larger ones print in exponent
  notation, which is not modelled. The function is applied to integral numbers only.
\<close>

definition Number_toString_integer :: "jsnumber \<Rightarrow> jsstring" where
  "Number_toString_integer n = (case n of Finite q \<Rightarrow> decimal \<lfloor>q\<rfloor> | _ \<Rightarrow> [])"

section \<open>Objects\<close>

text \<open>
  \<open>obj[k] = v\<close> on a plain object: an existing own property keeps its place, a new one
  comes last. The key \<open>__proto__\<close> reaches the prototype setter of
  \<open>Object.prototype\<close> and creates no own property. Objects are given with their
  properties in the order of \<open>Object.entries\<close> and are rebuilt in that order, so the
  place of a new integer-like key is the last one as well.
\<close>

fun own_put :: "jsstring \<Rightarrow> 'a \<Rightarrow> (jsstring \<times> 'a) list \<Rightarrow> (jsstring \<times> 'a) list" where
  "own_put k v [] = [(k, v)]"
| "own_put k v ((k', v') # ps) = (if k' = k then (k, v) # ps else (k', v') # own_put k v ps)"

definition assign :: "jsstring \<Rightarrow> 'a \<Rightarrow> (jsstring \<times> 'a) list \<Rightarrow> (jsstring \<times> 'a) list" where
  "assign k v obj = (if k = js ''__proto__'' then obj else own_put k v obj)"

text \<open>\<open>obj.k\<close>: the own property, \<open>undefined\<close> when there is none.\<close>

definition get_prop :: "(jsstring \<times> jsvalue) list \<Rightarrow> jsstring \<Rightarrow> jsvalue" where
  "get_prop obj k = (case map_of obj k of None \<Rightarrow> Undefined | Some v \<Rightarrow> v)"

section \<open>The Firestore wire format\<close>

text \<open>
  The date functions of the host are parameters: \<open>Date.prototype.toISOString\<close> on a
  valid time value, the parser behind \<open>new Date(string)\<close> (\<open>None\<close> for an invalid
  date), and the clock read by \<open>new Date()\<close>.
\<close>

record date_env =
  toISOString :: "int \<Rightarrow> jsstring"
  Date_parse :: "jsstring \<Rightarrow> int option"
  now :: int

text \<open>\<open>toISOString\<close> throws a RangeError on an invalid date; \<open>Error\<close> carries a message.\<close>

datatype js_error = RangeError | Error jsstring

text \<open>
  A wire value is an object with one tag. \<open>arrayValue\<close> and \<open>mapValue\<close> may come
  without \<open>values\<close> or \<open>fields\<close>; \<open>UnknownValue\<close> is an object with none of the
  tags the reader knows.
\<close>

datatype fsvalue =
    NullValue
  | StringValue jsstring
  | IntegerValue jsstring
  | DoubleValue jsnumber
  | BooleanValue bool
  | ArrayValue "fsvalue list option"
  | TimestampValue jsstring
  | MapValue "(jsstring \<times> fsvalue) list option"
  | UnknownValue

text \<open>
  \<open>convertToFirestoreValue\<close>, in the order of its tests. \<open>to_values\<close> is
  \<open>value.map(convertToFirestoreValue)\<close>, and \<open>to_fields\<close> is the loop over
  \<open>Object.entries(value)\<close> that fills \<open>fields\<close>.
\<close>

fun convertToFirestoreValue :: "date_env \<Rightarrow> jsvalue \<Rightarrow> js_error + fsvalue"
  and to_values :: "date_env \<Rightarrow> jsvalue list \<Rightarrow> js_error + fsvalue list"
  and to_fields :: "date_env \<Rightarrow> (jsstring \<times> jsvalue) list \<Rightarrow> (jsstring \<times> fsvalue) list
                     \<Rightarrow> js_error + (jsstring \<times> fsvalue) list"
where
  "convertToFirestoreValue env Null = Inr NullValue"
| "convertToFirestoreValue env Undefined = Inr NullValue"
| "convertToFirestoreValue env (Str s) = Inr (StringValue s)"
| "convertToFirestoreValue env (Num n) =
     Inr (if isInteger n then IntegerValue (Number_toString_integer n) else DoubleValue n)"
| "convertToFirestoreValue env (Bool b) = Inr (BooleanValue b)"
| "convertToFirestoreValue env (Arr vs) =
     (case to_values env vs of Inl e \<Rightarrow> Inl e | Inr ws \<Rightarrow> Inr (ArrayValue (Some ws)))"
| "convertToFirestoreValue env (DateObj d) =
     (case d of None \<Rightarrow> Inl RangeError | Some t \<Rightarrow> Inr (TimestampValue (toISOString env t)))"
| "convertToFirestoreValue env (Obj kvs) =
     (if truthy (get_prop kvs (js ''_serverTimestamp''))
      then Inr (TimestampValue (toISOString env (now env)))
      else case to_fields env kvs [] of Inl e \<Rightarrow> Inl e | Inr fs \<Rightarrow> Inr (MapValue (Some fs)))"
| "convertToFirestoreValue env (BigInt i) = Inr (StringValue (decimal i))"
| "convertToFirestoreValue env (Opaque s) = Inr (StringValue s)"
| "to_values env [] = Inr []"
| "to_values env (v # vs) =
     (case convertToFirestoreValue env v of Inl e \<Rightarrow> Inl e
      | Inr w \<Rightarrow> (case to_values env vs of Inl e \<Rightarrow> Inl e | Inr ws \<Rightarrow> Inr (w # ws)))"
| "to_fields env [] acc = Inr acc"
| "to_fields env ((k, v) # kvs) acc =
     (case convertToFirestoreValue env v of Inl e \<Rightarrow> Inl e
      | Inr w \<Rightarrow> to_fields env kvs (assign k w acc))"

text \<open>
  \<open>convertFromFirestoreValue\<close>, in the order of its \<open>in\<close> tests; \<open>from_fields\<close> is
  the loop that fills \<open>result\<close>.
\<close>

fun convertFromFirestoreValue :: "date_env \<Rightarrow> fsvalue \<Rightarrow> jsvalue"
  and from_values :: "date_env \<Rightarrow> fsvalue list \<Rightarrow> jsvalue list"
  and from_fields :: "date_env \<Rightarrow> (jsstring \<times> fsvalue) list \<Rightarrow> (jsstring \<times> jsvalue) list
                       \<Rightarrow> (jsstring \<times> jsvalue) list"
where
  "convertFromFirestoreValue env (StringValue s) = Str s"
| "convertFromFirestoreValue env (IntegerValue s) =
     Num (case parseInt10 s of None \<Rightarrow> NaN | Some i \<Rightarrow> Finite (of_int i))"
| "convertFromFirestoreValue env (DoubleValue n) = Num n"
| "convertFromFirestoreValue env (BooleanValue b) = Bool b"
| "convertFromFirestoreValue env NullValue = Null"
| "convertFromFirestoreValue env (TimestampValue s) = DateObj (Date_parse env s)"
| "convertFromFirestoreValue env (ArrayValue None) = Arr []"
| "convertFromFirestoreValue env (ArrayValue (Some ws)) = Arr (from_values env ws)"
| "convertFromFirestoreValue env (MapValue None) = Obj []"
| "convertFromFirestoreValue env (MapValue (Some fs)) = Obj (from_fields env fs [])"
| "convertFromFirestoreValue env UnknownValue = Null"
| "from_values env [] = []"
| "from_values env (w # ws) = convertFromFirestoreValue env w # from_values env ws"
| "from_fields env [] result = result"
| "from_fields env ((k, w) # fs) result =
     from_fields env fs (assign k (convertFromFirestoreValue env w) result)"

text \<open>
  The native values of the round-trip property: strings, safe integers, doubles that
  are not integral, booleans, null, arrays and maps of such values. The keys of a map
  are distinct, as the own properties of an object are.
\<close>

fun plain_value :: "jsvalue \<Rightarrow> bool" where
  "plain_value Null = True"
| "plain_value (Bool b) = True"
| "plain_value (Str s) = True"
| "plain_value (Num n) = (isInteger n \<longrightarrow> isSafeInteger n)"
| "plain_value (Arr vs) = list_all plain_value vs"
| "plain_value (Obj kvs) = (distinct (map fst kvs) \<and> list_all plain_value (map snd kvs))"
| "plain_value _ = False"

text \<open>
  No map of the value has a truthy \<open>_serverTimestamp\<close> property, which
  \<open>convertToFirestoreValue\<close> takes for the server-timestamp sentinel, or an own key
  \<open>__proto__\<close>.
\<close>

fun no_special_keys :: "jsvalue \<Rightarrow> bool" where
  "no_special_keys (Arr vs) = list_all no_special_keys vs"
| "no_special_keys (Obj kvs) =
     (js ''__proto__'' \<notin> set (map fst kvs)
      \<and> \<not> truthy (get_prop kvs (js ''_serverTimestamp''))
      \<and> list_all no_special_keys (map snd kvs))"
| "no_special_keys _ = True"

section \<open>Regular expressions\<close>

text \<open>
  The regular expressions of the source are built from backtracking matchers in
  continuation style: a matcher takes the continuation \<open>k\<close> for the rest of the
  pattern and the input left, tries its alternatives in the order of the ECMAScript
  semantics and returns the first success of \<open>k\<close>.
\<close>

text \<open>A literal.\<close>

definition lit :: "jsstring \<Rightarrow> (jsstring \<Rightarrow> 'a option) \<Rightarrow> jsstring \<Rightarrow> 'a option" where
  "lit p k s = (if prefix p s then k (drop (length p) s) else None)"

text \<open>
  Canonicalize of the \<open>i\<close> flag (without \<open>u\<close>), for the code units of the patterns
  below: an ASCII letter folds to upper case, and no code unit from 128 on folds to an
  ASCII one. The other code units of the patterns (Hangul syllables, surrogates,
  punctuation) are matched by themselves only.
\<close>

definition fold_case :: "jschar \<Rightarrow> jschar" where
  "fold_case c = (if 0x61 \<le> c \<and> c \<le> 0x7A then c - 0x20 else c)"

definition lit_ci :: "jsstring \<Rightarrow> (jsstring \<Rightarrow> 'a option) \<Rightarrow> jsstring \<Rightarrow> 'a option" where
  "lit_ci p k s =
     (if length p \<le> length s \<and> map fold_case (take (length p) s) = map fold_case p
      then k (drop (length p) s) else None)"

text \<open>\<open>(?:a|b)\<close> and \<open>(?:a)?\<close>: the first alternative first.\<close>

definition alt :: "((jsstring \<Rightarrow> 'a option) \<Rightarrow> jsstring \<Rightarrow> 'a option)
    \<Rightarrow> ((jsstring \<Rightarrow> 'a option) \<Rightarrow> jsstring \<Rightarrow> 'a option)
    \<Rightarrow> (jsstring \<Rightarrow> 'a option) \<Rightarrow> jsstring \<Rightarrow> 'a option" where
  "alt a b k s = (case a k s of Some r \<Rightarrow> Some r | None \<Rightarrow> b k s)"

definition opt :: "((jsstring \<Rightarrow> 'a option) \<Rightarrow> jsstring \<Rightarrow> 'a option)
    \<Rightarrow> (jsstring \<Rightarrow> 'a option) \<Rightarrow> jsstring \<Rightarrow> 'a option" where
  "opt a k s = (case a k s of Some r \<Rightarrow> Some r | None \<Rightarrow> k s)"

text \<open>\<open>C*\<close> for a class \<open>C\<close>, greedy: the longest run first, then shorter ones.\<close>

fun star_greedy :: "(jschar \<Rightarrow> bool) \<Rightarrow> (jsstring \<Rightarrow> 'a option) \<Rightarrow> jsstring \<Rightarrow> 'a option" where
  "star_greedy C k [] = k []"
| "star_greedy C k (c # cs) =
     (if C c then (case star_greedy C k cs of Some r \<Rightarrow> Some r | None \<Rightarrow> k (c # cs))
      else k (c # cs))"

text \<open>\<open>C+\<close>, greedy.\<close>

definition plus_greedy :: "(jschar \<Rightarrow> bool) \<Rightarrow> (jsstring \<Rightarrow> 'a option) \<Rightarrow> jsstring \<Rightarrow> 'a option" where
  "plus_greedy C k s = (case s of [] \<Rightarrow> None | c # cs \<Rightarrow> if C c then star_greedy C k cs else None)"

text \<open>
  \<open>([\s\S]*?)\<close>: a lazy run of any code units, captured; the shortest run first.
  The continuation receives the capture.
\<close>

fun star_lazy_capture :: "(jsstring \<Rightarrow> jsstring \<Rightarrow> 'a option) \<Rightarrow> jsstring \<Rightarrow> jsstring \<Rightarrow> 'a option" where
  "star_lazy_capture k cap [] = k cap []"
| "star_lazy_capture k cap (c # cs) =
     (case k cap (c # cs) of Some r \<Rightarrow> Some r | None \<Rightarrow> star_lazy_capture k (cap @ [c]) cs)"

text \<open>The end of a pattern without capture, and a look-ahead \<open>(?=R)\<close> as a test.\<close>

definition accept :: "jsstring \<Rightarrow> unit option" where
  "accept s = Some ()"

definition lookahead :: "((jsstring \<Rightarrow> unit option) \<Rightarrow> jsstring \<Rightarrow> unit option) \<Rightarrow> jsstring \<Rightarrow> bool" where
  "lookahead r s = (r accept s \<noteq> None)"

text \<open>
  \<open>String.prototype.match\<close> with a pattern that has no \<open>g\<close> flag: the match at the
  leftmost position that has one.
\<close>

fun search :: "(jsstring \<Rightarrow> 'a option) \<Rightarrow> jsstring \<Rightarrow> 'a option" where
  "search m [] = m []"
| "search m (c # cs) = (case m (c # cs) of Some r \<Rightarrow> Some r | None \<Rightarrow> search m cs)"

text \<open>
  \<open>text.split(/(?=R)/)\<close>, after the algorithm of \<open>RegExp.prototype[Symbol.split]\<close>:
  \<open>cur\<close> is the text from the last split position \<open>p\<close> to the position \<open>q\<close> under
  test. A look-ahead matches the empty string, so a match at \<open>q = p\<close> only advances
  \<open>q\<close>, and a match at \<open>q > p\<close> closes the piece. The pattern has no capture group.
\<close>

fun split_loop :: "(jsstring \<Rightarrow> bool) \<Rightarrow> jsstring \<Rightarrow> jsstring \<Rightarrow> jsstring list" where
  "split_loop m cur [] = [cur]"
| "split_loop m cur (c # cs) =
     (if m (c # cs) \<and> cur \<noteq> [] then cur # split_loop m [c] cs else split_loop m (cur @ [c]) cs)"

definition split_lookahead :: "(jsstring \<Rightarrow> bool) \<Rightarrow> jsstring \<Rightarrow> jsstring list" where
  "split_lookahead m s = (if s = [] then (if m [] then [] else [[]]) else split_loop m [] s)"

text \<open>\<open>xs.slice(a, b)\<close> for \<open>0 \<le> a \<le> b\<close>.\<close>

definition slice :: "nat \<Rightarrow> nat \<Rightarrow> 'a list \<Rightarrow> 'a list" where
  "slice a b xs = take (b - a) (drop a xs)"

section \<open>Chunking\<close>

text \<open>The three marker patterns of \<open>chunkByMarker\<close>, all with the flags \<open>gi\<close>.\<close>

definition turn_marker :: "jsstring \<Rightarrow> bool" where
  "turn_marker = lookahead (\<lambda>k.
     lit_ci (js ''##'') (star_greedy is_ws (lit_ci [0x5B, 0xD134]
       (star_greedy is_ws (plus_greedy is_digit (lit_ci (js '']'') k))))))"

definition day_marker :: "jsstring \<Rightarrow> bool" where
  "day_marker = lookahead (\<lambda>k.
     lit_ci [0x5B, 0xD83D, 0xDCC5] (star_greedy is_ws
       (alt (lit_ci (js ''Day'')) (lit_ci [0xB0A0, 0xC9DC])
         (star_greedy (\<lambda>c. c = 0x3A \<or> is_ws c) (plus_greedy is_digit (lit_ci (js '']'') k))))))"

definition episode_marker :: "jsstring \<Rightarrow> bool" where
  "episode_marker = lookahead (\<lambda>k.
     lit_ci [0x5B, 0xD83D, 0xDCD6] (star_greedy is_ws
       (alt (lit_ci (js ''Episode'')) (lit_ci [0xC5D0, 0xD53C, 0xC18C, 0xB4DC])
         (star_greedy (\<lambda>c. c = 0x3A \<or> is_ws c) (plus_greedy is_digit (lit_ci (js '']'') k))))))"

definition marker_regex :: "jsstring \<Rightarrow> jsstring \<Rightarrow> bool" where
  "marker_regex markerType =
     (if markerType = js ''day'' then day_marker
      else if markerType = js ''episode'' then episode_marker
      else turn_marker)"

text \<open>
  The grouping loop \<open>for (let i = 0; i < rawChunks.length; i += chunkSize)\<close>. With
  \<open>chunkSize = 0\<close> and a chunk to group the loop never advances: there is no result.
\<close>

function group_from :: "nat \<Rightarrow> nat \<Rightarrow> jsstring list \<Rightarrow> jsstring list option" where
  "group_from chunkSize i rawChunks =
     (if i < length rawChunks
      then (if chunkSize = 0 then None
            else map_option (Cons (join (js [CHR 0x0A, CHR 0x0A]) (slice i (i + chunkSize) rawChunks)))
                   (group_from chunkSize (i + chunkSize) rawChunks))
      else Some [])"
  by pat_completeness auto
termination
  by (relation "measure (\<lambda>(chunkSize, i, rawChunks). length rawChunks - i)") auto

declare group_from.simps [simp del]

definition rawChunks :: "jsstring \<Rightarrow> jsstring \<Rightarrow> jsstring list" where
  "rawChunks text markerType =
     filter (\<lambda>c. trim c \<noteq> []) (split_lookahead (marker_regex markerType) text)"

definition chunkByMarker :: "jsstring \<Rightarrow> jsstring \<Rightarrow> nat \<Rightarrow> jsstring list option" where
  "chunkByMarker text markerType chunkSize = group_from chunkSize 0 (rawChunks text markerType)"

text \<open>
  Steps 2 and 3 of \<open>runExtraction\<close>: the split of \<open>allMarkdown\<close> at \<open>/(?=## \[\<dots>)/\<close>
  (no flag) and the grouping by \<open>chunkSize\<close>.
\<close>

definition block_marker :: "jsstring \<Rightarrow> bool" where
  "block_marker = lookahead (lit (js ''## ['' @ [0xD134]))"

definition turnBlocks :: "jsstring \<Rightarrow> jsstring list" where
  "turnBlocks allMarkdown = filter (\<lambda>b. trim b \<noteq> []) (split_lookahead block_marker allMarkdown)"

definition runExtraction_chunks :: "jsstring \<Rightarrow> nat \<Rightarrow> jsstring list option" where
  "runExtraction_chunks allMarkdown chunkSize = group_from chunkSize 0 (turnBlocks allMarkdown)"

text \<open>
  The number of markers of a text: the positions where the pattern matches. The text
  before the first marker.
\<close>

fun count_markers :: "(jsstring \<Rightarrow> bool) \<Rightarrow> jsstring \<Rightarrow> nat" where
  "count_markers m [] = 0"
| "count_markers m (c # cs) = (if m (c # cs) then 1 else 0) + count_markers m cs"

fun before_first :: "(jsstring \<Rightarrow> bool) \<Rightarrow> jsstring \<Rightarrow> jsstring" where
  "before_first m [] = []"
| "before_first m (c # cs) = (if m (c # cs) then [] else c # before_first m cs)"

text \<open>
  What the marker patterns have in common: none matches the empty text, and none matches
  at a white-space code unit.
\<close>

definition marker_like :: "(jsstring \<Rightarrow> bool) \<Rightarrow> bool" where
  "marker_like m = (\<not> m [] \<and> (\<forall>c cs. m (c # cs) \<longrightarrow> \<not> is_ws c))"

section \<open>The text-mode LLM client\<close>

text \<open>The code fence, and the pattern \<open>/```(?:json)?\s*([\s\S]*?)\s*```/\<close> with its capture.\<close>

definition fence :: jsstring where
  "fence = [0x60, 0x60, 0x60]"

text \<open>The tail \<open>\s*```\<close>, which ends a match with the capture made so far.\<close>

definition close_fence :: "jsstring \<Rightarrow> jsstring \<Rightarrow> jsstring option" where
  "close_fence cap = star_greedy is_ws (lit fence (\<lambda>_. Some cap))"

text \<open>The part \<open>\s*([\s\S]*?)\s*```\<close>.\<close>

definition fence_body :: "jsstring \<Rightarrow> jsstring option" where
  "fence_body = star_greedy is_ws (star_lazy_capture close_fence [])"

definition code_block_regex :: "jsstring \<Rightarrow> jsstring option" where
  "code_block_regex = lit fence (opt (lit (js ''json'')) fence_body)"

text \<open>
  The end of \<open>callLLM\<close>: \<open>resultText.match(...)\<close>, then the trimmed capture, or the
  trimmed text when there is no match.
\<close>

definition extract_text :: "jsstring \<Rightarrow> jsstring" where
  "extract_text resultText =
     (case search code_block_regex resultText of
        Some cap \<Rightarrow> trim cap
      | None \<Rightarrow> trim resultText)"

text \<open>
  A response of \<open>fetch\<close>, as far as the clients read it: the status and its text,
  the body as text, and the body parsed by \<open>response.json()\<close>, \<open>None\<close> when the
  body is not JSON and the call rejects. \<open>response.ok\<close> holds for the statuses 200
  to 299.
\<close>

record 'j http_response =
  status :: nat
  statusText :: jsstring
  body_text :: jsstring
  body_json :: "'j option"

definition ok :: "'j http_response \<Rightarrow> bool" where
  "ok response = (200 \<le> status response \<and> status response \<le> 299)"

text \<open>
  The JSON body of the generation endpoint, as the text-mode client reads it. The body
  is an object, and the \<open>parts\<close> of its content, when present, are an array of
  objects whose \<open>text\<close>, when present, is a string. \<open>NoContent\<close> stands for a
  body without \<open>candidates[0].content\<close>; the parts may be missing, and a part may
  lack its \<open>text\<close>.
\<close>

datatype candidate_content = NoContent | Content "jsstring option list option"

datatype llm_error =
    MissingApiKey
  | FetchFailure jsstring
  | HttpFailure nat jsstring
  | JsonFailure
  | BadResponseShape

text \<open>
  The client's surroundings: whether an API key is configured, and the outcome of the
  \<open>i\<close>-th \<open>fetch\<close> of a run for a prompt (\<open>Inl\<close> when \<open>fetch\<close> itself rejects).
\<close>

record llm_env =
  has_api_key :: bool
  fetch :: "nat \<Rightarrow> jsstring \<Rightarrow> jsstring + candidate_content http_response"

definition response_text :: "jsstring option list option \<Rightarrow> jsstring" where
  "response_text parts =
     concat (map (\<lambda>p. case p of None \<Rightarrow> [] | Some t \<Rightarrow> t) (case parts of None \<Rightarrow> [] | Some ps \<Rightarrow> ps))"

definition callLLM :: "llm_env \<Rightarrow> nat \<Rightarrow> jsstring \<Rightarrow> jsstring \<Rightarrow> llm_error + jsstring" where
  "callLLM env i userMessage systemPrompt =
     (if \<not> has_api_key env then Inl MissingApiKey
      else let fullPrompt = (if systemPrompt \<noteq> []
                             then systemPrompt @ js ''\<newline>\<newline>---\<newline>\<newline>'' @ userMessage
                             else userMessage)
        in case fetch env i fullPrompt of
             Inl msg \<Rightarrow> Inl (FetchFailure msg)
           | Inr response \<Rightarrow>
               if \<not> ok response then Inl (HttpFailure (status response) (body_text response))
               else (case body_json response of
                       None \<Rightarrow> Inl JsonFailure
                     | Some NoContent \<Rightarrow> Inl BadResponseShape
                     | Some (Content parts) \<Rightarrow> Inr (extract_text (response_text parts))))"

text \<open>
  The first fenced block of a text, in the claim's words: the text after the first
  \<open>```\<close> (and after the tag \<open>json\<close>, when the fence opens with it) up to the next
  \<open>```\<close>. \<open>find_first p s\<close> cuts \<open>s\<close> at the first occurrence of \<open>p\<close>.
\<close>

fun find_first :: "jsstring \<Rightarrow> jsstring \<Rightarrow> (jsstring \<times> jsstring) option" where
  "find_first p [] = (if p = [] then Some ([], []) else None)"
| "find_first p (c # cs) =
     (if prefix p (c # cs) then Some ([], drop (length p) (c # cs))
      else map_option (\<lambda>(a, b). (c # a, b)) (find_first p cs))"



section \<open>Parsed JSON\<close>

text \<open>
  What \<open>response.json()\<close> resolves to: \<open>null\<close>, a boolean, a number, a string, an
  array, or an object, which is given by its own properties in the order of
  \<open>Object.entries\<close>, with distinct keys.
\<close>

datatype json =
    JNull
  | JBool bool
  | JNum jsnumber
  | JStr jsstring
  | JArr "json list"
  | JObj "(jsstring \<times> json) list"

text \<open>The JavaScript value that a parsed body is.\<close>

fun native :: "json \<Rightarrow> jsvalue"
  and native_list :: "json list \<Rightarrow> jsvalue list"
  and native_props :: "(jsstring \<times> json) list \<Rightarrow> (jsstring \<times> jsvalue) list"
where
  "native JNull = Null"
| "native (JBool b) = Bool b"
| "native (JNum n) = Num n"
| "native (JStr s) = Str s"
| "native (JArr xs) = Arr (native_list xs)"
| "native (JObj kvs) = Obj (native_props kvs)"
| "native_list [] = []"
| "native_list (x # xs) = native x # native_list xs"
| "native_props [] = []"
| "native_props ((k, v) # kvs) = (k, native v) # native_props kvs"

text \<open>
  \<open>v.k\<close> for the property names the clients read (\<open>error\<close>, \<open>message\<close>, \<open>fields\<close>,
  \<open>name\<close>, \<open>candidates\<close>, \<open>content\<close>, \<open>parts\<close>, \<open>text\<close>), none of which a
  prototype has: the own property of an object, and \<open>undefined\<close>, here \<open>None\<close>, on a
  boolean, a number, a string and an array. Reading a property of \<open>null\<close> throws a
  TypeError, so a caller tests for \<open>null\<close> before it uses \<open>own\<close>; behind \<open>?.\<close> a
  \<open>null\<close> gives \<open>undefined\<close>, which is what \<open>own\<close> gives there.
\<close>

definition own :: "json \<Rightarrow> jsstring \<Rightarrow> json option" where
  "own v k = (case v of JObj kvs \<Rightarrow> map_of kvs k | _ \<Rightarrow> None)"

text \<open>
  \<open>v[0]\<close>: the first element of an array, the first code unit of a string, the
  property \<open>0\<close> of an object; \<open>undefined\<close> when there is none.
\<close>

definition first_of :: "json \<Rightarrow> json option" where
  "first_of v =
     (case v of
        JArr xs \<Rightarrow> (case xs of [] \<Rightarrow> None | x # r \<Rightarrow> Some x)
      | JStr s \<Rightarrow> (case s of [] \<Rightarrow> None | c # r \<Rightarrow> Some (JStr [c]))
      | JObj kvs \<Rightarrow> map_of kvs (js ''0'')
      | _ \<Rightarrow> None)"

text \<open>ToBoolean of a property that may be \<open>undefined\<close>.\<close>

definition truthy_prop :: "json option \<Rightarrow> bool" where
  "truthy_prop p = (case p of None \<Rightarrow> False | Some v \<Rightarrow> truthy (native v))"

text \<open>
  Two conversions of the host are parameters: the string that a template literal,
  \<open>parseInt\<close> and \<open>JSON.parse\<close> make of a value that is not a string, and the time
  value of \<open>new Date(v)\<close> for a value that is not a string (\<open>Some None\<close> for an
  invalid date). Either is \<open>None\<close> when the conversion throws a TypeError, as it does
  on an object whose \<open>toString\<close> and \<open>valueOf\<close> are not functions.
\<close>

record host =
  String_of :: "json \<Rightarrow> jsstring option"
  Date_of :: "json \<Rightarrow> int option option"

text \<open>
  \<open>error.error?.message\<close> for a parsed error body \<open>error\<close>: \<open>None\<close> is the throw of
  the TypeError on \<open>null.error\<close> (only \<open>.message\<close> is behind \<open>?.\<close>), \<open>Some None\<close>
  is \<open>undefined\<close>.
\<close>

definition provider_message :: "json \<Rightarrow> json option option" where
  "provider_message error =
     (case error of
        JNull \<Rightarrow> None
      | _ \<Rightarrow> Some (case own error (js ''error'') of None \<Rightarrow> None | Some e \<Rightarrow> own e (js ''message'')))"

text \<open>
  The body that the failure branch of a client reads:
  \<open>await response.json().catch(() => ({}))\<close>.
\<close>

definition error_body :: "json http_response \<Rightarrow> json" where
  "error_body response = (case body_json response of None \<Rightarrow> JObj [] | Some b \<Rightarrow> b)"

text \<open>
  The text that \<open>${error.error?.message || response.statusText}\<close> puts into the message
  of the error a client throws; \<open>None\<close> when evaluating it throws a TypeError instead.
\<close>

definition failure_message :: "host \<Rightarrow> json http_response \<Rightarrow> jsstring option" where
  "failure_message h response =
     (case provider_message (error_body response) of
        None \<Rightarrow> None
      | Some p \<Rightarrow>
          (case p of
             None \<Rightarrow> Some (statusText response)
           | Some m \<Rightarrow>
               if \<not> truthy (native m) then Some (statusText response)
               else (case m of JStr s \<Rightarrow> Some s | _ \<Rightarrow> String_of h m)))"

section \<open>The document-store client\<close>

datatype store_error =
    ConfigMissing
  | FetchRejected jsstring
  | GetFailed jsstring
  | BodyNotJson
  | TypeError

text \<open>
  The client's surroundings: whether \<open>firebaseConfig.projectId\<close> is set, and the
  outcome of the \<open>fetch\<close> for a collection path and a document id (\<open>Inl\<close> when
  \<open>fetch\<close> itself rejects).
\<close>

record store_env =
  has_project :: bool
  store_fetch :: "jsstring \<Rightarrow> jsstring \<Rightarrow> jsstring + json http_response"

text \<open>
  \<open>convertFromFirestoreValue\<close> on a parsed body, where a value need not be a wire
  value; \<open>convertFromFirestoreJson\<close> is the function, in the order of its \<open>in\<close>
  tests. The operator \<open>in\<close> throws a TypeError on a value that is not an object, and
  finds none of the tags in an array. \<open>parseInt\<close> and \<open>new Date\<close> take a string as
  it is and any other value through the conversions of the host.
\<close>

definition parseInt_of :: "host \<Rightarrow> json \<Rightarrow> store_error + jsvalue" where
  "parseInt_of h v =
     (case (case v of JStr s \<Rightarrow> Some s | _ \<Rightarrow> String_of h v) of
        None \<Rightarrow> Inl TypeError
      | Some s \<Rightarrow> Inr (Num (case parseInt10 s of None \<Rightarrow> NaN | Some i \<Rightarrow> Finite (of_int i))))"

definition new_Date :: "date_env \<Rightarrow> host \<Rightarrow> json \<Rightarrow> store_error + jsvalue" where
  "new_Date env h v =
     (case v of
        JStr s \<Rightarrow> Inr (DateObj (Date_parse env s))
      | _ \<Rightarrow> (case Date_of h v of None \<Rightarrow> Inl TypeError | Some t \<Rightarrow> Inr (DateObj t)))"

text \<open>\<open>Object.entries\<close> of an array: its elements under their indices.\<close>

fun index_entries :: "nat \<Rightarrow> json list \<Rightarrow> (jsstring \<times> json) list" where
  "index_entries i [] = []"
| "index_entries i (y # ys) = (decimal (int i), y) # index_entries (Suc i) ys"

text \<open>
  In the branch of \<open>arrayValue\<close>, \<open>(value.arrayValue.values || []).map(...)\<close>: on an
  array \<open>values\<close> is the method of the prototype, which has no \<open>map\<close>, and a truthy
  \<open>values\<close> that is not an array has no \<open>map\<close> either, so the call throws. In the
  branch of \<open>mapValue\<close>, \<open>from_entries\<close> is the loop
  \<open>for (const [k, v] of Object.entries(x)) result[k] = convertFromFirestoreValue(v)\<close>
  from an empty \<open>result\<close>: a boolean and a number have no entries, the entries of a
  string are its code units, on the first of which the conversion throws, and
  \<open>Object.entries(null)\<close> throws. \<open>json_values\<close> is the \<open>map\<close> over an array and
  \<open>json_fields\<close> the loop over the entries.
\<close>

function convertFromFirestoreJson :: "date_env \<Rightarrow> host \<Rightarrow> json \<Rightarrow> store_error + jsvalue"
  and json_values :: "date_env \<Rightarrow> host \<Rightarrow> json list \<Rightarrow> store_error + jsvalue list"
  and from_entries :: "date_env \<Rightarrow> host \<Rightarrow> json \<Rightarrow> store_error + (jsstring \<times> jsvalue) list"
  and json_fields :: "date_env \<Rightarrow> host \<Rightarrow> (jsstring \<times> json) list \<Rightarrow> (jsstring \<times> jsvalue) list
                       \<Rightarrow> store_error + (jsstring \<times> jsvalue) list"
where
  "convertFromFirestoreJson env h JNull = Inl TypeError"
| "convertFromFirestoreJson env h (JBool b) = Inl TypeError"
| "convertFromFirestoreJson env h (JNum n) = Inl TypeError"
| "convertFromFirestoreJson env h (JStr s) = Inl TypeError"
| "convertFromFirestoreJson env h (JArr xs) = Inr Null"
| "convertFromFirestoreJson env h (JObj kvs) =
     (case map_of kvs (js ''stringValue'') of Some v \<Rightarrow> Inr (native v) | None \<Rightarrow>
     (case map_of kvs (js ''integerValue'') of Some v \<Rightarrow> parseInt_of h v | None \<Rightarrow>
     (case map_of kvs (js ''doubleValue'') of Some v \<Rightarrow> Inr (native v) | None \<Rightarrow>
     (case map_of kvs (js ''booleanValue'') of Some v \<Rightarrow> Inr (native v) | None \<Rightarrow>
     (case map_of kvs (js ''nullValue'') of Some v \<Rightarrow> Inr Null | None \<Rightarrow>
     (case map_of kvs (js ''timestampValue'') of Some v \<Rightarrow> new_Date env h v | None \<Rightarrow>
     (case map_of kvs (js ''arrayValue'') of
        Some a \<Rightarrow>
          (case a of
             JNull \<Rightarrow> Inl TypeError
           | JArr xs \<Rightarrow> Inl TypeError
           | JObj as \<Rightarrow>
               (case map_of as (js ''values'') of
                  None \<Rightarrow> Inr (Arr [])
                | Some vs \<Rightarrow>
                    (case vs of
                       JArr ys \<Rightarrow> (case json_values env h ys of Inl e \<Rightarrow> Inl e | Inr ws \<Rightarrow> Inr (Arr ws))
                     | _ \<Rightarrow> if truthy (native vs) then Inl TypeError else Inr (Arr [])))
           | _ \<Rightarrow> Inr (Arr []))
      | None \<Rightarrow>
     (case map_of kvs (js ''mapValue'') of
        Some m \<Rightarrow>
          (case m of
             JNull \<Rightarrow> Inl TypeError
           | JObj ms \<Rightarrow>
               (case map_of ms (js ''fields'') of
                  None \<Rightarrow> Inr (Obj [])
                | Some f \<Rightarrow>
                    if truthy (native f)
                    then (case from_entries env h f of Inl e \<Rightarrow> Inl e | Inr r \<Rightarrow> Inr (Obj r))
                    else Inr (Obj []))
           | _ \<Rightarrow> Inr (Obj []))
      | None \<Rightarrow> Inr Null))))))))"
| "json_values env h [] = Inr []"
| "json_values env h (y # ys) =
     (case convertFromFirestoreJson env h y of Inl e \<Rightarrow> Inl e
      | Inr w \<Rightarrow> (case json_values env h ys of Inl e \<Rightarrow> Inl e | Inr ws \<Rightarrow> Inr (w # ws)))"
| "from_entries env h JNull = Inl TypeError"
| "from_entries env h (JBool b) = Inr []"
| "from_entries env h (JNum n) = Inr []"
| "from_entries env h (JStr s) = (if s = [] then Inr [] else Inl TypeError)"
| "from_entries env h (JArr ys) = json_fields env h (index_entries 0 ys) []"
| "from_entries env h (JObj kvs) = json_fields env h kvs []"
| "json_fields env h [] result = Inr result"
| "json_fields env h ((k, v) # kvs) result =
     (case convertFromFirestoreJson env h v of Inl e \<Rightarrow> Inl e
      | Inr w \<Rightarrow> json_fields env h kvs (assign k w result))"
  by pat_completeness auto

termination
proof -
  have look: "map_of kvs k = Some v \<Longrightarrow> size v < size (JObj kvs)"
    for kvs :: "(jsstring \<times> json) list" and k v
    by (induction kvs) (auto split: if_splits)
  have idx: "size_list (\<lambda>p. size (snd p)) (index_entries i ys) = size_list size ys" for i ys
    by (induction ys arbitrary: i) auto
  have le: "size_list (\<lambda>p. size (snd p)) kvs \<le> size_list (size_prod (\<lambda>x. 0) size) kvs"
    for kvs :: "(jsstring \<times> json) list"
    by (induction kvs) auto
  have less: "2 * size_list (\<lambda>p. size (snd p)) kvs
                < Suc (Suc (Suc (2 * size_list (size_prod (\<lambda>x. 0) size) kvs)))"
    for kvs :: "(jsstring \<times> json) list"
    using le[of kvs] by arith
  show ?thesis
    apply (relation "measure (\<lambda>x. case x of
              Inl (Inl (env, h, v)) \<Rightarrow> 2 * size v
            | Inl (Inr (env, h, ys)) \<Rightarrow> 2 * size_list size ys
            | Inr (Inl (env, h, v)) \<Rightarrow> 2 * size v + 1
            | Inr (Inr (env, h, kvs, r)) \<Rightarrow> 2 * size_list (\<lambda>p. size (snd p)) kvs)")
    apply (auto simp: idx less dest!: look)
    done
qed

text \<open>
  A wire value as the parsed object that carries it. On these objects
  \<open>convertFromFirestoreJson\<close> is \<open>convertFromFirestoreValue\<close> of the wire format.
\<close>

fun json_of :: "fsvalue \<Rightarrow> json"
  and json_of_values :: "fsvalue list \<Rightarrow> json list"
  and json_of_fields :: "(jsstring \<times> fsvalue) list \<Rightarrow> (jsstring \<times> json) list"
where
  "json_of NullValue = JObj [(js ''nullValue'', JNull)]"
| "json_of (StringValue s) = JObj [(js ''stringValue'', JStr s)]"
| "json_of (IntegerValue s) = JObj [(js ''integerValue'', JStr s)]"
| "json_of (DoubleValue n) = JObj [(js ''doubleValue'', JNum n)]"
| "json_of (BooleanValue b) = JObj [(js ''booleanValue'', JBool b)]"
| "json_of (ArrayValue None) = JObj [(js ''arrayValue'', JObj [])]"
| "json_of (ArrayValue (Some ws)) =
     JObj [(js ''arrayValue'', JObj [(js ''values'', JArr (json_of_values ws))])]"
| "json_of (TimestampValue s) = JObj [(js ''timestampValue'', JStr s)]"
| "json_of (MapValue None) = JObj [(js ''mapValue'', JObj [])]"
| "json_of (MapValue (Some fs)) =
     JObj [(js ''mapValue'', JObj [(js ''fields'', JObj (json_of_fields fs))])]"
| "json_of UnknownValue = JObj []"
| "json_of_values [] = []"
| "json_of_values (w # ws) = json_of w # json_of_values ws"
| "json_of_fields [] = []"
| "json_of_fields ((k, w) # fs) = (k, json_of w) # json_of_fields fs"

text \<open>\<open>name.split('/').pop()\<close>: the text after the last slash.\<close>

definition last_segment :: "jsstring \<Rightarrow> jsstring" where
  "last_segment name = rev (takeWhile (\<lambda>c. c \<noteq> 0x2F) (rev name))"

text \<open>
  \<open>convertFromFirestoreDoc\<close>: \<open>null\<close> for a falsy body and for one without a truthy
  \<open>fields\<close>. A truthy \<open>name\<close> that is not a string has no \<open>split\<close>, and the call
  throws.
\<close>

definition convertFromFirestoreDoc :: "date_env \<Rightarrow> host \<Rightarrow> json \<Rightarrow> store_error + jsvalue" where
  "convertFromFirestoreDoc env h doc =
     (if \<not> truthy (native doc) then Inr Null
      else case own doc (js ''fields'') of
             None \<Rightarrow> Inr Null
           | Some f \<Rightarrow>
               if \<not> truthy (native f) then Inr Null
               else (case from_entries env h f of
                       Inl e \<Rightarrow> Inl e
                     | Inr result \<Rightarrow>
                         (case own doc (js ''name'') of
                            None \<Rightarrow> Inr (Obj result)
                          | Some name \<Rightarrow>
                              if \<not> truthy (native name) then Inr (Obj result)
                              else (case name of
                                      JStr s \<Rightarrow> Inr (Obj (assign (js ''_id'') (Str (last_segment s)) result))
                                    | _ \<Rightarrow> Inl TypeError))))"

text \<open>
  \<open>firestoreGet\<close>. \<open>GetFailed\<close> carries what follows the fixed prefix of the message
  of the error.
\<close>

definition firestoreGet :: "store_env \<Rightarrow> date_env \<Rightarrow> host \<Rightarrow> jsstring \<Rightarrow> jsstring \<Rightarrow> store_error + jsvalue" where
  "firestoreGet senv env h collectionPath docId =
     (if \<not> has_project senv then Inl ConfigMissing
      else case store_fetch senv collectionPath docId of
             Inl msg \<Rightarrow> Inl (FetchRejected msg)
           | Inr response \<Rightarrow>
               if status response = 404 then Inr Null
               else if \<not> ok response
               then (case failure_message h response of
                       None \<Rightarrow> Inl TypeError
                     | Some m \<Rightarrow> Inl (GetFailed m))
               else (case body_json response of
                       None \<Rightarrow> Inl BodyNotJson
                     | Some doc \<Rightarrow> convertFromFirestoreDoc env h doc))"

section \<open>The batch size of runExtraction\<close>

text \<open>
  The answer to the prompt is a string, or \<open>null\<close> (here \<open>None\<close>) when the prompt is
  cancelled. A falsy answer, \<open>null\<close> or the empty string, ends \<open>runExtraction\<close>.
  Otherwise the size is \<open>Math.max(1, Math.min(100, parseInt(chunkSizeStr, 10) || 10))\<close>,
  where \<open>||\<close> takes 10 for the falsy numbers NaN and 0.
\<close>

definition chunkSize_of :: "jsstring \<Rightarrow> int" where
  "chunkSize_of chunkSizeStr =
     max 1 (min 100 (case parseInt10 chunkSizeStr of
                       None \<Rightarrow> 10
                     | Some i \<Rightarrow> if i = 0 then 10 else i))"

definition runExtraction_chunkSize :: "jsstring option \<Rightarrow> int option" where
  "runExtraction_chunkSize answer =
     (case answer of
        None \<Rightarrow> None
      | Some chunkSizeStr \<Rightarrow> if chunkSizeStr = [] then None else Some (chunkSize_of chunkSizeStr))"

section \<open>Effects\<close>

text \<open>
  What a run does to the outside, in order: the alert, the prompt and the confirm
  dialogues, the \<open>i\<close>-th LLM call with its message, an awaited delay in milliseconds,
  a call of the progress callback, the write of a result to the store (batch size,
  number of batches, joined result) and the download of a file.
\<close>

datatype event =
    Alerted
  | Asked
  | Called nat jsstring
  | Waited nat
  | Progressed nat nat
  | StoreSet int nat jsstring
  | Confirmed
  | Downloaded jsstring

fun is_Called :: "event \<Rightarrow> bool" where
  "is_Called (Called i m) = True"
| "is_Called _ = False"

fun is_Waited :: "event \<Rightarrow> bool" where
  "is_Waited (Waited ms) = True"
| "is_Waited _ = False"

fun is_StoreSet :: "event \<Rightarrow> bool" where
  "is_StoreSet (StoreSet c n r) = True"
| "is_StoreSet _ = False"

fun is_Downloaded :: "event \<Rightarrow> bool" where
  "is_Downloaded (Downloaded f) = True"
| "is_Downloaded _ = False"

section \<open>runExtraction\<close>

text \<open>
  A turn is an object with the properties \<open>content\<close>, \<open>narrative\<close> and
  \<open>turnNumber\<close>. Step 1 turns it into Markdown; \<open>content.trim()\<close> throws a TypeError
  when the content is not a string. The updates of the progress bar and of the status
  line and the console output of \<open>runExtraction\<close> are left out: they decide nothing.
\<close>

datatype run_error = ContentNotString | NoTurnData | LLMError llm_error

definition turn_markdown :: "(jsvalue \<Rightarrow> jsstring) \<Rightarrow> (jsstring \<times> jsvalue) list \<Rightarrow> run_error + jsstring" where
  "turn_markdown fmt t =
     (let c = (if truthy (get_prop t (js ''content'')) then get_prop t (js ''content'')
               else if truthy (get_prop t (js ''narrative'')) then get_prop t (js ''narrative'')
               else Str [])
      in case c of
           Str content \<Rightarrow>
             Inr (if prefix (js ''## ['' @ [0xD134]) (trim content) then content
                  else js ''## ['' @ [0xD134] @ js '' '' @ String_js fmt (get_prop t (js ''turnNumber''))
                       @ js '']\<newline>\<newline>'' @ content)
         | _ \<Rightarrow> Inl ContentNotString)"

fun map_turns :: "(jsvalue \<Rightarrow> jsstring) \<Rightarrow> (jsstring \<times> jsvalue) list list \<Rightarrow> run_error + jsstring list" where
  "map_turns fmt [] = Inr []"
| "map_turns fmt (t # ts) =
     (case turn_markdown fmt t of
        Inl e \<Rightarrow> Inl e
      | Inr m \<Rightarrow> (case map_turns fmt ts of Inl e \<Rightarrow> Inl e | Inr ms \<Rightarrow> Inr (m # ms)))"

definition allMarkdown :: "(jsvalue \<Rightarrow> jsstring) \<Rightarrow> (jsstring \<times> jsvalue) list list \<Rightarrow> run_error + jsstring" where
  "allMarkdown fmt turns =
     (case map_turns fmt turns of Inl e \<Rightarrow> Inl e | Inr ms \<Rightarrow> Inr (join (js ''\<newline>\<newline>'') ms))"

text \<open>The message of a batch, between its two delimiter lines.\<close>

definition userMessage_of :: "jsstring \<Rightarrow> jsstring" where
  "userMessage_of chunk =
     js ''--- '' @ [0xB370, 0xC774, 0xD130, 0x20, 0xC2DC, 0xC791] @ js '' ---\<newline>'' @ chunk
     @ js ''\<newline>--- '' @ [0xB370, 0xC774, 0xD130, 0x20, 0xB05D] @ js '' ---''"

text \<open>
  Step 4, the loop over the batches, with the results and the effects so far as its
  state. A failed call ends the loop: the exception leaves it for the \<open>catch\<close> of
  \<open>runExtraction\<close>.
\<close>

function process_batches :: "llm_env \<Rightarrow> jsstring \<Rightarrow> jsstring list \<Rightarrow> nat \<Rightarrow> jsstring list \<Rightarrow> event list
    \<Rightarrow> event list \<times> (llm_error + jsstring list)" where
  "process_batches env systemPrompt chunks i accumulatedResults trace =
     (if i < length chunks
      then (case callLLM env i (userMessage_of (chunks ! i)) systemPrompt of
              Inl e \<Rightarrow> (trace @ [Called i (userMessage_of (chunks ! i))], Inl e)
            | Inr result \<Rightarrow>
                process_batches env systemPrompt chunks (i + 1) (accumulatedResults @ [result])
                  (trace @ [Called i (userMessage_of (chunks ! i))]
                       @ (if i < length chunks - 1 then [Waited 2000] else [])))
      else (trace, Inr accumulatedResults))"
  by pat_completeness auto
termination
  by (relation "measure (\<lambda>(env, systemPrompt, chunks, i, accumulatedResults, trace). length chunks - i)") auto

declare process_batches.simps [simp del]

text \<open>
  The surroundings of a run: the LLM client's, the refiner prompt, the answer to the
  batch-size prompt, whether a store and a current session are there, the answer to
  the download question, and \<open>String()\<close> on turn numbers.
\<close>

record run_env =
  llm :: llm_env
  refiner_prompt :: jsstring
  prompt_answer :: "jsstring option"
  store_available :: bool
  confirm_download :: bool
  number_format :: "jsvalue \<Rightarrow> jsstring"

datatype outcome = NoApiKey | Cancelled | NoReturn | Failed run_error | Completed jsstring

definition runExtraction :: "run_env \<Rightarrow> (jsstring \<times> jsvalue) list list \<Rightarrow> event list \<times> outcome" where
  "runExtraction env turns =
     (if \<not> has_api_key (llm env) then ([Alerted], NoApiKey)
      else case runExtraction_chunkSize (prompt_answer env) of
        None \<Rightarrow> ([Asked], Cancelled)
      | Some chunkSize \<Rightarrow>
         (case allMarkdown (number_format env) turns of
            Inl e \<Rightarrow> ([Asked], Failed e)
          | Inr md \<Rightarrow>
             (case runExtraction_chunks md (nat chunkSize) of
                None \<Rightarrow> ([Asked], NoReturn)
              | Some chunks \<Rightarrow>
                 if chunks = [] then ([Asked], Failed NoTurnData)
                 else (case process_batches (llm env) (refiner_prompt env) chunks 0 [] [Asked] of
                         (trace, Inl e) \<Rightarrow> (trace, Failed (LLMError e))
                       | (trace, Inr accumulatedResults) \<Rightarrow>
                           let finalResult = join (js '',\<newline>'') (filter (\<lambda>r. trim r \<noteq> []) accumulatedResults)
                           in (trace
                               @ (if store_available env
                                  then [StoreSet chunkSize (length chunks) finalResult] else [])
                               @ [Confirmed]
                               @ (if confirm_download env
                                  then [Downloaded (js ''['' @ finalResult @ js '']'')] else []),
                               Completed finalResult)))))"

section \<open>batchExtract\<close>

text \<open>
  The JSON-mode client of the second module. The three prompts, \<open>JSON.parse\<close> and
  the conversions of the host are parameters. \<open>part_text\<close> is
  \<open>data.candidates?.[0]?.content?.parts?.[0]?.text\<close> for a parsed body \<open>data\<close>:
  \<open>None\<close> is the throw of the TypeError on \<open>null.candidates\<close> (the first read is not
  behind \<open>?.\<close>), \<open>Some None\<close> is \<open>undefined\<close>.
\<close>

definition part_text :: "json \<Rightarrow> json option option" where
  "part_text data =
     (case data of
        JNull \<Rightarrow> None
      | _ \<Rightarrow>
          Some (Option.bind (own data (js ''candidates'')) (\<lambda>candidates.
                Option.bind (first_of candidates) (\<lambda>candidate.
                Option.bind (own candidate (js ''content'')) (\<lambda>content.
                Option.bind (own content (js ''parts'')) (\<lambda>parts.
                Option.bind (first_of parts) (\<lambda>part. own part (js ''text''))))))))"

datatype extract_error =
    LLMConfigMissing
  | LLMFetchRejected jsstring
  | LLMApiError nat jsstring
  | LLMBodyNotJson
  | LLMParseFailure
  | LLMTypeError

record lite_env =
  lite_api_key :: bool
  lite_fetch :: "nat \<Rightarrow> jsstring \<Rightarrow> jsstring + json http_response"
  lite_host :: host
  JSON_parse :: "jsstring \<Rightarrow> jsvalue option"
  micro_prompt :: jsstring
  meso_prompt :: "jsstring \<Rightarrow> jsstring"
  macro_prompt :: jsstring

text \<open>
  \<open>callLLM\<close> of the second module. The argument of \<open>JSON.parse\<close> is the text of
  the first part, or \<open>'{}'\<close> when that is falsy; a truthy one that is not a string is
  converted to a string first.
\<close>

definition callLLM_lite :: "lite_env \<Rightarrow> nat \<Rightarrow> jsstring \<Rightarrow> jsstring \<Rightarrow> extract_error + jsvalue" where
  "callLLM_lite env i prompt content =
     (if \<not> lite_api_key env then Inl LLMConfigMissing
      else case lite_fetch env i (prompt @ js ''\<newline>\<newline>---\<newline>\<newline>'' @ content) of
             Inl msg \<Rightarrow> Inl (LLMFetchRejected msg)
           | Inr response \<Rightarrow>
               if \<not> ok response
               then (case failure_message (lite_host env) response of
                       None \<Rightarrow> Inl LLMTypeError
                     | Some m \<Rightarrow> Inl (LLMApiError (status response) m))
               else (case body_json response of
                       None \<Rightarrow> Inl LLMBodyNotJson
                     | Some data \<Rightarrow>
                         (case part_text data of
                            None \<Rightarrow> Inl LLMTypeError
                          | Some p \<Rightarrow>
                              (case (case p of
                                       None \<Rightarrow> Some (js ''{}'')
                                     | Some t \<Rightarrow>
                                         if \<not> truthy (native t) then Some (js ''{}'')
                                         else (case t of JStr s \<Rightarrow> Some s
                                               | _ \<Rightarrow> String_of (lite_host env) t)) of
                                 None \<Rightarrow> Inl LLMTypeError
                               | Some s \<Rightarrow>
                                   (case JSON_parse env s of
                                      None \<Rightarrow> Inl LLMParseFailure
                                    | Some v \<Rightarrow> Inr v)))))"

definition extractMicro :: "lite_env \<Rightarrow> nat \<Rightarrow> jsstring \<Rightarrow> extract_error + jsvalue" where
  "extractMicro env i turnContent = callLLM_lite env i (micro_prompt env) turnContent"

definition extractMeso :: "lite_env \<Rightarrow> nat \<Rightarrow> jsstring \<Rightarrow> jsstring \<Rightarrow> extract_error + jsvalue" where
  "extractMeso env i chunkContent chunkType = callLLM_lite env i (meso_prompt env chunkType) chunkContent"

definition extractMacro :: "lite_env \<Rightarrow> nat \<Rightarrow> jsstring \<Rightarrow> extract_error + jsvalue" where
  "extractMacro env i fullContent = callLLM_lite env i (macro_prompt env) fullContent"

text \<open>The \<open>switch\<close> on the extraction level, inside the \<open>try\<close> of \<open>batchExtract\<close>.\<close>

definition extract_chunk :: "lite_env \<Rightarrow> jsstring \<Rightarrow> jsstring \<Rightarrow> nat \<Rightarrow> jsstring \<Rightarrow> extract_error + jsvalue" where
  "extract_chunk env markerType extractionLevel i chunk =
     (if extractionLevel = js ''meso'' then extractMeso env i chunk markerType
      else if extractionLevel = js ''macro'' then extractMacro env i chunk
      else extractMicro env i chunk)"

text \<open>An entry of the result: \<open>{index, success: true, data}\<close> or \<open>{index, success: false, error}\<close>.\<close>

datatype entry =
    Succeeded (index: nat) jsvalue
  | Failed_entry (index: nat) extract_error

fun success :: "entry \<Rightarrow> bool" where
  "success (Succeeded i d) = True"
| "success (Failed_entry i e) = False"

text \<open>
  The loop of \<open>batchExtract\<close>, with the results and the effects so far as its state.
  \<open>onProgress\<close> tells whether a progress callback was given; the callback is taken to
  return normally.
\<close>

function batch_loop :: "lite_env \<Rightarrow> jsstring \<Rightarrow> jsstring \<Rightarrow> bool \<Rightarrow> jsstring list \<Rightarrow> nat \<Rightarrow> entry list
    \<Rightarrow> event list \<Rightarrow> event list \<times> entry list" where
  "batch_loop env markerType extractionLevel onProgress chunks i results trace =
     (if i < length chunks
      then batch_loop env markerType extractionLevel onProgress chunks (i + 1)
             (results @ [case extract_chunk env markerType extractionLevel i (chunks ! i) of
                           Inr result \<Rightarrow> Succeeded i result
                         | Inl e \<Rightarrow> Failed_entry i e])
             (trace @ [Called i (chunks ! i)]
                  @ (if onProgress then [Progressed (i + 1) (length chunks)] else [])
                  @ (if i < length chunks - 1 then [Waited 500] else []))
      else (trace, results))"
  by pat_completeness auto
termination
  by (relation "measure (\<lambda>(env, markerType, extractionLevel, onProgress, chunks, i, results, trace).
        length chunks - i)") auto

declare batch_loop.simps [simp del]

definition batchExtract :: "lite_env \<Rightarrow> jsstring \<Rightarrow> jsstring \<Rightarrow> jsstring \<Rightarrow> bool
    \<Rightarrow> (event list \<times> entry list) option" where
  "batchExtract env fullText markerType extractionLevel onProgress =
     (case chunkByMarker fullText markerType 1 of
        None \<Rightarrow> None
      | Some chunks \<Rightarrow> Some (batch_loop env markerType extractionLevel onProgress chunks 0 [] []))"

section \<open>Example runs\<close>

text \<open>
  Three turns and the text of three turn markers, an LLM endpoint whose second call
  (index 1) fails and one that always answers, for the examples of the properties
  below.
\<close>

definition example_turns :: "(jsstring \<times> jsvalue) list list" where
  "example_turns =
     [[(js ''content'', Str (js ''a'')), (js ''turnNumber'', Num (Finite 1))],
      [(js ''content'', Str (js ''b'')), (js ''turnNumber'', Num (Finite 2))],
      [(js ''content'', Str (js ''c'')), (js ''turnNumber'', Num (Finite 3))]]"

definition example_text :: jsstring where
  "example_text = js ''##['' @ [0xD134] @ js ''1]a##['' @ [0xD134] @ js ''2]b##['' @ [0xD134] @ js ''3]c''"

definition answer_ok :: "candidate_content http_response" where
  "answer_ok = \<lparr>status = 200, statusText = js ''OK'', body_text = [],
                 body_json = Some (Content (Some [Some (js ''{}'')]))\<rparr>"

definition answer_500 :: "candidate_content http_response" where
  "answer_500 = \<lparr>status = 500, statusText = js ''Internal'', body_text = js ''overloaded'',
                  body_json = None\<rparr>"

definition example_run_env :: "(nat \<Rightarrow> bool) \<Rightarrow> run_env" where
  "example_run_env fails =
     \<lparr>llm = \<lparr>has_api_key = True,
              fetch = (\<lambda>i p. if fails i then Inr answer_500 else Inr answer_ok)\<rparr>,
      refiner_prompt = js ''refine'',
      prompt_answer = Some (js ''1''),
      store_available = True,
      confirm_download = True,
      number_format = (\<lambda>v. js ''0'')\<rparr>"

definition example_lite_env :: lite_env where
  "example_lite_env =
     \<lparr>lite_api_key = True,
      lite_fetch = (\<lambda>i p. if i = 1 then Inl (js ''offline'')
                           else Inr \<lparr>status = 200, statusText = js ''OK'', body_text = [],
                                     body_json = Some (JObj [(js ''candidates'',
                                       JArr [JObj [(js ''content'',
                                         JObj [(js ''parts'',
                                           JArr [JObj [(js ''text'', JStr (js ''{}''))]])])]])])\<rparr>),
      lite_host = \<lparr>String_of = (\<lambda>v. None), Date_of = (\<lambda>v. None)\<rparr>,
      JSON_parse = (\<lambda>s. Some (Obj [])),
      micro_prompt = js ''micro'',
      meso_prompt = (\<lambda>t. js ''meso''),
      macro_prompt = js ''macro''\<rparr>"

text \<open>The events of one batch in either loop, and the entry of a chunk.\<close>

definition run_events :: "jsstring list \<Rightarrow> nat \<Rightarrow> event list" where
  "run_events chunks i =
     [Called i (userMessage_of (chunks ! i))] @ (if i < length chunks - 1 then [Waited 2000] else [])"

definition batch_events :: "bool \<Rightarrow> jsstring list \<Rightarrow> nat \<Rightarrow> event list" where
  "batch_events onProgress chunks i =
     [Called i (chunks ! i)]
     @ (if onProgress then [Progressed (i + 1) (length chunks)] else [])
     @ (if i < length chunks - 1 then [Waited 500] else [])"

definition entry_of :: "lite_env \<Rightarrow> jsstring \<Rightarrow> jsstring \<Rightarrow> jsstring list \<Rightarrow> nat \<Rightarrow> entry" where
  "entry_of env markerType extractionLevel chunks i =
     (case extract_chunk env markerType extractionLevel i (chunks ! i) of
        Inr result \<Rightarrow> Succeeded i result
      | Inl e \<Rightarrow> Failed_entry i e)"

chapter \<open>Properties\<close>

section \<open>Properties of escapeHtml\<close>

lemma replace_all_append:
  "replace_all c r (xs @ ys) = replace_all c r xs @ replace_all c r ys"
  by (simp add: replace_all_def)

lemma chain_esc:
  "replace_all 0x22 (js ''&quot;'') (replace_all 0x3E (js ''&gt;'')
     (replace_all 0x3C (js ''&lt;'') (replace_all 0x26 (js ''&amp;'') s))) = concat (map esc s)"
proof (induction s)
  case Nil
  show ?case by (simp add: replace_all_def)
next
  case (Cons c s)
  have "replace_all 0x26 (js ''&amp;'') (c # s)
        = (if c = 0x26 then js ''&amp;'' else [c]) @ replace_all 0x26 (js ''&amp;'') s"
    by (simp add: replace_all_def)
  moreover have "replace_all 0x22 (js ''&quot;'') (replace_all 0x3E (js ''&gt;'')
     (replace_all 0x3C (js ''&lt;'') (if c = 0x26 then js ''&amp;'' else [c]))) = esc c"
    by (simp add: replace_all_def esc_def js_def)
  ultimately show ?case using Cons by (simp add: replace_all_append)
qed

lemma esc_no_raw: "x \<in> set (esc c) \<Longrightarrow> x \<noteq> 0x3C \<and> x \<noteq> 0x3E \<and> x \<noteq> 0x22"
  by (auto simp: esc_def js_def split: if_splits)

lemma esc_amp: "esc c = p @ 0x26 # q \<Longrightarrow> p = [] \<and> (\<exists>e \<in> set entities. esc c = e)"
  by (auto simp: esc_def js_def entities_def Cons_eq_append_conv split: if_splits)

lemma concat_esc_amp:
  "concat (map esc s) = pre @ 0x26 # suf \<Longrightarrow> \<exists>e \<in> set entities. prefix e (0x26 # suf)"
proof (induction s arbitrary: pre)
  case Nil
  then show ?case by simp
next
  case (Cons c s)
  from Cons.prems have "esc c @ concat (map esc s) = pre @ 0x26 # suf" by simp
  then consider (inside) us where "esc c = pre @ us" "us @ concat (map esc s) = 0x26 # suf"
    | (later) us where "esc c @ us = pre" "concat (map esc s) = us @ 0x26 # suf"
    by (auto simp: append_eq_append_conv2)
  then show ?case
  proof cases
    case inside
    show ?thesis
    proof (cases us)
      case Nil
      with inside have "concat (map esc s) = [] @ 0x26 # suf" by simp
      then show ?thesis by (rule Cons.IH)
    next
      case (Cons u us')
      with inside have suf: "suf = us' @ concat (map esc s)" and c: "esc c = pre @ 0x26 # us'"
        by simp_all
      from esc_amp[OF c] obtain e where e: "e \<in> set entities" "esc c = e" "pre = []" by blast
      with c suf have "prefix e (0x26 # suf)" by (simp add: prefix_def)
      with e show ?thesis by blast
    qed
  next
    case later
    then show ?thesis using Cons.IH by blast
  qed
qed

text \<open>
  Claim C9. Whatever the argument, the result of \<open>escapeHtml\<close> holds no raw
  \<open><\<close>, \<open>>\<close> or double quote; every \<open>&\<close> of the result is the first code unit of
  one of the four entities the function emits; and \<open>null\<close>, \<open>undefined\<close> and the empty
  string give the empty string.
\<close>

theorem escapeHtml_escapes:
  "(\<forall>c \<in> set (escapeHtml fmt v). c \<noteq> 0x3C \<and> c \<noteq> 0x3E \<and> c \<noteq> 0x22)
   \<and> (\<forall>pre suf. escapeHtml fmt v = pre @ 0x26 # suf
         \<longrightarrow> (\<exists>e \<in> set entities. prefix e (0x26 # suf)))
   \<and> escapeHtml fmt Null = [] \<and> escapeHtml fmt Undefined = [] \<and> escapeHtml fmt (Str []) = []"
proof (intro conjI allI impI ballI)
  fix c assume "c \<in> set (escapeHtml fmt v)"
  then show "c \<noteq> 0x3C" and "c \<noteq> 0x3E" and "c \<noteq> 0x22"
    by (auto simp: escapeHtml_def chain_esc dest: esc_no_raw split: if_splits)
next
  fix pre suf assume "escapeHtml fmt v = pre @ 0x26 # suf"
  then have "concat (map esc (String_js fmt v)) = pre @ 0x26 # suf"
    by (simp add: escapeHtml_def chain_esc split: if_splits)
  then show "\<exists>e \<in> set entities. prefix e (0x26 # suf)" by (rule concat_esc_amp)
qed (simp_all add: escapeHtml_def)

theorem escapeHtml_escapes_witness:
  "escapeHtml (\<lambda>_. []) (Str (js ''<&'')) = js ''&lt;&amp;''
   \<and> 0x3C \<notin> set (escapeHtml (\<lambda>_. []) (Str (js ''<&'')))
   \<and> (\<exists>e \<in> set entities. prefix e (js ''&amp;''))"
proof -
  have out: "escapeHtml (\<lambda>_. []) (Str (js ''<&'')) = js ''&lt;&amp;''"
    by (simp add: escapeHtml_def replace_all_def String_js_def js_def)
  then have split: "escapeHtml (\<lambda>_. []) (Str (js ''<&'')) = js ''&lt;'' @ 0x26 # js ''amp;''"
    by (simp add: js_def)
  from escapeHtml_escapes[of "\<lambda>_. []" "Str (js ''<&'')"] split
  have "0x3C \<notin> set (escapeHtml (\<lambda>_. []) (Str (js ''<&'')))"
    and "\<exists>e \<in> set entities. prefix e (0x26 # js ''amp;'')"
    by blast+
  with out show ?thesis by (simp add: js_def)
qed

section \<open>Round trip through the wire format\<close>

lemma digit_char:
  assumes "d < 10"
  shows "is_digit (0x30 + of_nat d)" "\<not> is_ws (0x30 + of_nat d)"
    "(0x30 + of_nat d :: jschar) \<noteq> 0x2D" "(0x30 + of_nat d :: jschar) \<noteq> 0x2B"
    "digit_val (0x30 + of_nat d) = d"
proof -
  from assms have "d \<in> {0, 1, 2, 3, 4, 5, 6, 7, 8, 9}" by auto
  then show "is_digit (0x30 + of_nat d)" "\<not> is_ws (0x30 + of_nat d)"
    "(0x30 + of_nat d :: jschar) \<noteq> 0x2D" "(0x30 + of_nat d :: jschar) \<noteq> 0x2B"
    "digit_val (0x30 + of_nat d) = d"
    by (auto simp: is_digit_def is_ws_def digit_val_def)
qed

lemma digits_nonempty: "digits n \<noteq> []"
  by (subst digits.simps) simp

lemma digits_all_digit: "\<forall>c \<in> set (digits n). is_digit c"
proof (induction n rule: digits.induct)
  case (1 n)
  show ?case
  proof (cases "n < 10")
    case True
    then show ?thesis by (subst digits.simps) (simp add: digit_char)
  next
    case False
    then have "n mod 10 < 10" by simp
    with False 1 show ?thesis by (subst digits.simps) (simp add: digit_char)
  qed
qed

lemma digits_value: "foldl (\<lambda>a d. 10 * a + digit_val d) 0 (digits n) = n"
proof (induction n rule: digits.induct)
  case (1 n)
  show ?case
  proof (cases "n < 10")
    case True
    then show ?thesis by (subst digits.simps) (simp add: digit_char)
  next
    case False
    then have "n mod 10 < 10" by simp
    with False 1 show ?thesis by (subst digits.simps) (simp add: digit_char)
  qed
qed

lemma digits_head: "\<exists>c cs. digits n = c # cs \<and> is_digit c \<and> \<not> is_ws c \<and> c \<noteq> 0x2D \<and> c \<noteq> 0x2B"
proof (induction n rule: digits.induct)
  case (1 n)
  show ?case
  proof (cases "n < 10")
    case True
    then show ?thesis by (subst digits.simps) (simp add: digit_char)
  next
    case False
    with 1 obtain c cs where "digits (n div 10) = c # cs" "is_digit c \<and> \<not> is_ws c \<and> c \<noteq> 0x2D \<and> c \<noteq> 0x2B"
      by blast
    with False show ?thesis by (subst digits.simps) simp
  qed
qed

lemma takeWhile_digits: "takeWhile is_digit (digits n) = digits n"
  using digits_all_digit by (simp add: takeWhile_eq_all_conv)

lemma digits_lead:
  "dropWhile is_ws (digits n) = digits n"
  "(case digits n of [] \<Rightarrow> False | c # r \<Rightarrow> c = 0x2D) = False"
  "(case digits n of [] \<Rightarrow> [] | c # r \<Rightarrow> if c = 0x2D \<or> c = 0x2B then r else digits n) = digits n"
proof -
  obtain c cs where h: "digits n = c # cs" "is_digit c \<and> \<not> is_ws c \<and> c \<noteq> 0x2D \<and> c \<noteq> 0x2B"
    using digits_head by blast
  show "dropWhile is_ws (digits n) = digits n" using h by simp
  show "(case digits n of [] \<Rightarrow> False | c # r \<Rightarrow> c = 0x2D) = False" using h by simp
  show "(case digits n of [] \<Rightarrow> [] | c # r \<Rightarrow> if c = 0x2D \<or> c = 0x2B then r else digits n) = digits n"
    using h by simp
qed

lemma parseInt10_digits: "parseInt10 (digits n) = Some (int n)"
  by (simp add: parseInt10_def digits_lead takeWhile_digits digits_value digits_nonempty)

lemma parseInt10_minus_digits: "parseInt10 (0x2D # digits n) = Some (- int n)"
proof -
  have "\<not> is_ws 0x2D" by (simp add: is_ws_def)
  then show ?thesis
    by (simp add: parseInt10_def takeWhile_digits digits_value digits_nonempty)
qed

lemma parseInt10_decimal: "parseInt10 (decimal i) = Some i"
  by (simp add: decimal_def parseInt10_digits parseInt10_minus_digits)

lemma own_put_fresh: "k \<notin> set (map fst ps) \<Longrightarrow> own_put k v ps = ps @ [(k, v)]"
  by (induction ps) auto

lemma assign_fresh:
  "k \<noteq> js ''__proto__'' \<Longrightarrow> k \<notin> set (map fst ps) \<Longrightarrow> assign k v ps = ps @ [(k, v)]"
  by (simp add: assign_def own_put_fresh)

lemma number_roundtrip:
  assumes "isInteger n"
  shows "(case parseInt10 (Number_toString_integer n) of None \<Rightarrow> NaN | Some i \<Rightarrow> Finite (of_int i)) = n"
  using assms by (cases n) (simp_all add: isInteger_def Number_toString_integer_def parseInt10_decimal)

lemma roundtrip_all:
  "(plain_value v \<and> no_special_keys v \<longrightarrow> (\<exists>w. convertToFirestoreValue env v = Inr w \<and> convertFromFirestoreValue env w = v))"
  "(list_all plain_value vs \<and> list_all no_special_keys vs \<longrightarrow> (\<exists>ws. to_values env vs = Inr ws \<and> from_values env ws = vs))"
  "(list_all plain_value (map snd kvs) \<and> list_all no_special_keys (map snd kvs)
      \<and> distinct (map fst acc @ map fst kvs)
      \<and> js ''__proto__'' \<notin> set (map fst kvs)
    \<longrightarrow> (\<exists>ws. to_fields env kvs acc = Inr (acc @ ws)
           \<and> (\<forall>res :: (jsstring \<times> jsvalue) list. distinct (map fst res @ map fst kvs) \<longrightarrow> from_fields env ws res = res @ kvs)))"
proof (induction env v and env vs and env kvs acc
       rule: convertToFirestoreValue_to_values_to_fields.induct)
  case (4 env n)
  show ?case by (simp add: number_roundtrip)
next
  case (8 env kvs)
  show ?case
  proof
    assume p: "plain_value (Obj kvs) \<and> no_special_keys (Obj kvs)"
    then have nt: "\<not> truthy (get_prop kvs (js ''_serverTimestamp''))" by simp
    from 8[OF nt] p obtain ws where ws: "to_fields env kvs [] = Inr ([] @ ws)"
      "\<forall>res. distinct (map fst res @ map fst kvs) \<longrightarrow> from_fields env ws res = res @ kvs"
      by auto
    from ws(2) p have "from_fields env ws [] = kvs" by simp
    with ws(1) nt show "\<exists>w. convertToFirestoreValue env (Obj kvs) = Inr w \<and> convertFromFirestoreValue env w = Obj kvs"
      by simp
  qed
next
  case (14 env k v kvs acc)
  show ?case
  proof
    assume a: "list_all plain_value (map snd ((k, v) # kvs))
      \<and> list_all no_special_keys (map snd ((k, v) # kvs)) \<and> distinct (map fst acc @ map fst ((k, v) # kvs))
      \<and> js ''__proto__'' \<notin> set (map fst ((k, v) # kvs))"
    then have pv: "plain_value v \<and> no_special_keys v" by simp
    with 14(1) obtain w where w: "convertToFirestoreValue env v = Inr w" "convertFromFirestoreValue env w = v"
      by blast
    from a have k: "k \<noteq> js ''__proto__''" "k \<notin> set (map fst acc)" by auto
    then have as: "assign k w acc = acc @ [(k, w)]" by (simp add: assign_fresh)
    from a have "list_all plain_value (map snd kvs) \<and> list_all no_special_keys (map snd kvs)
      \<and> distinct (map fst (assign k w acc) @ map fst kvs)
      \<and> js ''__proto__'' \<notin> set (map fst kvs)" unfolding as by auto
    with 14(2)[OF w(1)] obtain ws where ws: "to_fields env kvs (assign k w acc) = Inr (assign k w acc @ ws)"
      "\<forall>res. distinct (map fst res @ map fst kvs) \<longrightarrow> from_fields env ws res = res @ kvs"
      by blast
    have "to_fields env ((k, v) # kvs) acc = Inr (acc @ (k, w) # ws)"
      using w(1) ws(1) as by simp
    moreover have "\<forall>res. distinct (map fst res @ map fst ((k, v) # kvs))
        \<longrightarrow> from_fields env ((k, w) # ws) res = res @ (k, v) # kvs"
    proof (intro allI impI)
      fix res :: "(jsstring \<times> jsvalue) list"
      assume d: "distinct (map fst res @ map fst ((k, v) # kvs))"
      then have "assign k v res = res @ [(k, v)]" using k(1) by (simp add: assign_fresh)
      moreover from d have "distinct (map fst (res @ [(k, v)]) @ map fst kvs)" by auto
      ultimately show "from_fields env ((k, w) # ws) res = res @ (k, v) # kvs"
        using ws(2) w(2) by simp
    qed
    ultimately show "\<exists>ws. to_fields env ((k, v) # kvs) acc = Inr (acc @ ws)
           \<and> (\<forall>res. distinct (map fst res @ map fst ((k, v) # kvs)) \<longrightarrow> from_fields env ws res = res @ (k, v) # kvs)"
      by blast
  qed
qed auto


text \<open>
  Claim C1, as amended. For every native value built from strings, safe integers,
  non-integral doubles, booleans, null, arrays and nested maps, in which no map has a
  truthy \<open>_serverTimestamp\<close> property or an own key \<open>__proto__\<close>, the conversion to
  the wire format succeeds and converting back gives the value again.
\<close>

theorem firestore_roundtrip:
  assumes "plain_value v" and "no_special_keys v"
  shows "\<exists>w. convertToFirestoreValue env v = Inr w \<and> convertFromFirestoreValue env w = v"
  using assms roundtrip_all(1) by blast

theorem firestore_roundtrip_witness:
  "plain_value (Obj [(js ''n'', Num (Finite (- 42))), (js ''xs'', Arr [Num (Finite (1 / 2)), Null,
       Str (js ''a''), Bool True, Obj [(js ''k'', Num NaN)]])])
   \<and> no_special_keys (Obj [(js ''n'', Num (Finite (- 42))), (js ''xs'', Arr [Num (Finite (1 / 2)), Null,
       Str (js ''a''), Bool True, Obj [(js ''k'', Num NaN)]])])
   \<and> (\<exists>w. convertToFirestoreValue \<lparr>toISOString = (\<lambda>_. []), Date_parse = (\<lambda>_. None), now = 0\<rparr>
          (Obj [(js ''n'', Num (Finite (- 42))), (js ''xs'', Arr [Num (Finite (1 / 2)), Null,
            Str (js ''a''), Bool True, Obj [(js ''k'', Num NaN)]])]) = Inr w
        \<and> convertFromFirestoreValue \<lparr>toISOString = (\<lambda>_. []), Date_parse = (\<lambda>_. None), now = 0\<rparr> w
          = Obj [(js ''n'', Num (Finite (- 42))), (js ''xs'', Arr [Num (Finite (1 / 2)), Null,
            Str (js ''a''), Bool True, Obj [(js ''k'', Num NaN)]])])"
proof -
  let ?v = "Obj [(js ''n'', Num (Finite (- 42))), (js ''xs'', Arr [Num (Finite (1 / 2)), Null,
       Str (js ''a''), Bool True, Obj [(js ''k'', Num NaN)]])]"
  have p: "plain_value ?v" by code_simp
  have n: "no_special_keys ?v" by code_simp
  from firestore_roundtrip[OF p n] p n show ?thesis by blast
qed

text \<open>
  The claim as stated fails on a map of booleans: \<open>{_serverTimestamp: true}\<close> is
  written as a timestamp and read back as a \<open>Date\<close>.
\<close>

theorem firestore_roundtrip_counterexample:
  "plain_value (Obj [(js ''_serverTimestamp'', Bool True)])
   \<and> convertToFirestoreValue \<lparr>toISOString = (\<lambda>_. []), Date_parse = (\<lambda>_. Some 0), now = 0\<rparr>
        (Obj [(js ''_serverTimestamp'', Bool True)]) = Inr (TimestampValue [])
   \<and> convertFromFirestoreValue \<lparr>toISOString = (\<lambda>_. []), Date_parse = (\<lambda>_. Some 0), now = 0\<rparr>
        (TimestampValue []) \<noteq> Obj [(js ''_serverTimestamp'', Bool True)]"
  by (simp add: get_prop_def js_def)

section \<open>Splitting at markers\<close>

lemma trim_Nil_iff: "trim s = [] \<longleftrightarrow> (\<forall>c \<in> set s. is_ws c)"
proof
  assume "trim s = []"
  then have a: "\<forall>x \<in> set (dropWhile is_ws s). is_ws x"
    by (simp add: trim_def dropWhile_eq_Nil_conv)
  show "\<forall>c \<in> set s. is_ws c"
  proof (cases "dropWhile is_ws s")
    case Nil
    then show ?thesis by (simp add: dropWhile_eq_Nil_conv)
  next
    case (Cons x xs)
    then have "\<not> is_ws x" using hd_dropWhile[of is_ws s] by simp
    with a Cons show ?thesis by simp
  qed
next
  assume "\<forall>c \<in> set s. is_ws c"
  then have "\<forall>x \<in> set (dropWhile is_ws s). is_ws x" by (meson set_dropWhileD)
  then show "trim s = []" by (simp add: trim_def dropWhile_eq_Nil_conv)
qed

lemma marker_like_head: "marker_like m \<Longrightarrow> m (c # cs) \<Longrightarrow> trim (c # xs) \<noteq> []"
  by (auto simp: marker_like_def trim_Nil_iff)

lemma trim_nonblank_Cons: "\<not> is_ws c \<Longrightarrow> trim (c # cs) \<noteq> []"
  by (auto simp: trim_Nil_iff)

lemma split_loop_shape:
  assumes ml: "marker_like m"
  shows "cur \<noteq> [] \<Longrightarrow> \<exists>rest. split_loop m cur s = (cur @ before_first m s) # rest
           \<and> length rest = count_markers m s \<and> (\<forall>p \<in> set rest. trim p \<noteq> [])"
proof (induction s arbitrary: cur)
  case Nil
  then show ?case by simp
next
  case (Cons c cs)
  show ?case
  proof (cases "m (c # cs)")
    case True
    have "[c] \<noteq> []" by simp
    from Cons.IH[OF this] obtain rest where r: "split_loop m [c] cs = ([c] @ before_first m cs) # rest"
      "length rest = count_markers m cs" "\<forall>p \<in> set rest. trim p \<noteq> []" by blast
    from marker_like_head[OF ml True] have "trim ([c] @ before_first m cs) \<noteq> []" by simp
    with True Cons.prems r show ?thesis by simp
  next
    case False
    have "cur @ [c] \<noteq> []" by simp
    from Cons.IH[OF this] obtain rest where r: "split_loop m (cur @ [c]) cs = ((cur @ [c]) @ before_first m cs) # rest"
      "length rest = count_markers m cs" "\<forall>p \<in> set rest. trim p \<noteq> []" by blast
    with False show ?thesis by simp
  qed
qed

lemma before_first_drop: "before_first m s @ drop (length (before_first m s)) s = s"
  by (induction s) auto

lemma trim_Nil: "trim [] = []"
  by (simp add: trim_def)

lemma split_loop_concat: "concat (split_loop m cur s) = cur @ s"
  by (induction s arbitrary: cur) auto

lemma split_lookahead_Cons:
  assumes ml: "marker_like m"
  shows "\<exists>rest. split_lookahead m (c # cs) = (c # before_first m cs) # rest
           \<and> length rest = count_markers m cs \<and> (\<forall>p \<in> set rest. trim p \<noteq> [])
           \<and> concat rest = drop (length (before_first m cs)) cs"
proof -
  have "[c] \<noteq> []" by simp
  from split_loop_shape[where m = m and cur = "[c]" and s = cs, OF ml this] obtain rest where
    r: "split_loop m [c] cs = (c # before_first m cs) # rest"
      "length rest = count_markers m cs" "\<forall>p \<in> set rest. trim p \<noteq> []" by auto
  have "concat (split_loop m [c] cs) = [c] @ cs" by (rule split_loop_concat)
  with r(1) have "before_first m cs @ concat rest = cs" by simp
  then have "concat rest = drop (length (before_first m cs)) cs"
    by (simp add: append_eq_conv_conj)
  with r show ?thesis by (simp add: split_lookahead_def)
qed

lemma raw_shape:
  assumes ml: "marker_like m"
  defines "raw \<equiv> \<lambda>s. filter (\<lambda>c. trim c \<noteq> []) (split_lookahead m s)"
  shows "length (raw s) = count_markers m s + (if trim (before_first m s) = [] then 0 else 1)"
    and "concat (raw s) = (if trim (before_first m s) = [] then drop (length (before_first m s)) s else s)"
proof -
  have "length (raw s) = count_markers m s + (if trim (before_first m s) = [] then 0 else 1)
    \<and> concat (raw s) = (if trim (before_first m s) = [] then drop (length (before_first m s)) s else s)"
  proof (cases s)
    case Nil
    then show ?thesis using ml by (simp add: raw_def split_lookahead_def trim_Nil marker_like_def)
  next
    case (Cons c cs)
    from split_lookahead_Cons[where m = m and c = c and cs = cs, OF ml] obtain rest where
      r: "split_lookahead m (c # cs) = (c # before_first m cs) # rest"
        "length rest = count_markers m cs" "\<forall>p \<in> set rest. trim p \<noteq> []"
        "concat rest = drop (length (before_first m cs)) cs" by blast
    from r(3) have fr: "filter (\<lambda>c. trim c \<noteq> []) rest = rest" by (simp add: filter_id_conv)
    show ?thesis
    proof (cases "m (c # cs)")
      case True
      then have "trim (c # before_first m cs) \<noteq> []" using ml by (simp add: marker_like_head)
      with True r fr Cons show ?thesis by (simp add: raw_def trim_Nil before_first_drop)
    next
      case False
      with r fr Cons show ?thesis by (simp add: raw_def before_first_drop)
    qed
  qed
  then show "length (raw s) = count_markers m s + (if trim (before_first m s) = [] then 0 else 1)"
    and "concat (raw s) = (if trim (before_first m s) = [] then drop (length (before_first m s)) s else s)"
    by simp_all
qed

lemma fold_case_hash: "fold_case c = 0x23 \<Longrightarrow> c = 0x23"
  and fold_case_bracket: "fold_case c = 0x5B \<Longrightarrow> c = 0x5B"
  by (auto simp: fold_case_def split: if_splits)

lemma lit_ci_head:
  assumes "lit_ci (p # ps) k s \<noteq> None"
  shows "\<exists>c cs. s = c # cs \<and> fold_case c = fold_case p"
  using assms by (cases s) (auto simp: lit_ci_def split: if_splits)

lemma lookahead_lit_ci:
  assumes "lookahead (\<lambda>k. lit_ci (p # ps) (r k)) s"
  shows "\<exists>c cs. s = c # cs \<and> fold_case c = fold_case p"
  using assms unfolding lookahead_def by (rule lit_ci_head)

lemma marker_likeI:
  assumes "\<And>s. m s \<Longrightarrow> \<exists>c cs. s = c # cs \<and> (c = 0x23 \<or> c = 0x5B)"
  shows "marker_like m"
  unfolding marker_like_def
proof (intro conjI allI impI)
  show "\<not> m []" using assms by blast
  fix c cs assume "m (c # cs)"
  with assms have "c = 0x23 \<or> c = 0x5B" by blast
  then show "\<not> is_ws c" by (auto simp: is_ws_def)
qed

lemma marker_like_turn: "marker_like turn_marker"
proof (rule marker_likeI)
  fix s assume "turn_marker s"
  then obtain c cs where "s = c # cs" "fold_case c = fold_case 0x23"
    unfolding turn_marker_def js_def by (auto dest: lookahead_lit_ci)
  then show "\<exists>c cs. s = c # cs \<and> (c = 0x23 \<or> c = 0x5B)"
    by (auto simp: fold_case_def split: if_splits)
qed

lemma marker_like_day: "marker_like day_marker"
proof (rule marker_likeI)
  fix s assume "day_marker s"
  then obtain c cs where "s = c # cs" "fold_case c = fold_case 0x5B"
    unfolding day_marker_def by (auto dest: lookahead_lit_ci)
  then show "\<exists>c cs. s = c # cs \<and> (c = 0x23 \<or> c = 0x5B)"
    by (auto simp: fold_case_def split: if_splits)
qed

lemma marker_like_episode: "marker_like episode_marker"
proof (rule marker_likeI)
  fix s assume "episode_marker s"
  then obtain c cs where "s = c # cs" "fold_case c = fold_case 0x5B"
    unfolding episode_marker_def by (auto dest: lookahead_lit_ci)
  then show "\<exists>c cs. s = c # cs \<and> (c = 0x23 \<or> c = 0x5B)"
    by (auto simp: fold_case_def split: if_splits)
qed

lemma marker_like_regex: "marker_like (marker_regex markerType)"
  by (simp add: marker_regex_def marker_like_turn marker_like_day marker_like_episode)

lemma marker_like_block: "marker_like block_marker"
proof (rule marker_likeI)
  fix s assume "block_marker s"
  then show "\<exists>c cs. s = c # cs \<and> (c = 0x23 \<or> c = 0x5B)"
    unfolding block_marker_def lookahead_def lit_def js_def
    by (cases s) (auto split: if_splits)
qed

subsection \<open>The grouping loop\<close>

lemma group_from_shape:
  "0 < n \<Longrightarrow> \<exists>bs. group_from n i raw = Some bs
      \<and> length bs = (length raw - i + n - 1) div n
      \<and> (\<forall>j < length bs. bs ! j = join (js [CHR 0x0A, CHR 0x0A]) (take n (drop (i + j * n) raw)))"
proof (induction n i raw rule: group_from.induct)
  case (1 n i raw)
  show ?case
  proof (cases "i < length raw")
    case False
    then have "length raw - i + n - 1 < n" using 1(2) by simp
    then have "(length raw - i + n - 1) div n = 0" by simp
    with False show ?thesis by (subst group_from.simps) simp
  next
    case True
    from 1(2) have n0: "n \<noteq> 0" by simp
    from 1(1)[OF True n0 1(2)] obtain bs where bs: "group_from n (i + n) raw = Some bs"
      "length bs = (length raw - (i + n) + n - 1) div n"
      "\<forall>j < length bs. bs ! j = join (js [CHR 0x0A, CHR 0x0A]) (take n (drop (i + n + j * n) raw))"
      by blast
    let ?x = "join (js [CHR 0x0A, CHR 0x0A]) (slice i (i + n) raw)"
    have g: "group_from n i raw = Some (?x # bs)"
      using True n0 bs(1) by (subst group_from.simps) simp
    have len: "length (?x # bs) = (length raw - i + n - 1) div n"
    proof -
      have e: "length raw - i + n - 1 = (length raw - i - 1) + n" using True 1(2) by simp
      have a: "(length raw - i + n - 1) div n = Suc ((length raw - i - 1) div n)"
        by (simp only: e div_add_self2[OF n0] Suc_eq_plus1)
      have "(length raw - (i + n) + n - 1) div n = (length raw - i - 1) div n"
      proof (cases "i + n \<le> length raw")
        case True
        then have "length raw - (i + n) + n - 1 = length raw - i - 1" by simp
        then show ?thesis by simp
      next
        case False
        then have "length raw - (i + n) + n - 1 < n" "length raw - i - 1 < n" using 1(2) by simp_all
        then show ?thesis by simp
      qed
      with a bs(2) show ?thesis by simp
    qed
    have nth: "\<forall>j < length (?x # bs). (?x # bs) ! j = join (js [CHR 0x0A, CHR 0x0A]) (take n (drop (i + j * n) raw))"
    proof (intro allI impI)
      fix j assume j: "j < length (?x # bs)"
      show "(?x # bs) ! j = join (js [CHR 0x0A, CHR 0x0A]) (take n (drop (i + j * n) raw))"
      proof (cases j)
        case 0
        then show ?thesis by (simp add: slice_def)
      next
        case (Suc j')
        with j bs(3) show ?thesis by (simp add: add.assoc add.commute)
      qed
    qed
    from g len nth show ?thesis by blast
  qed
qed

lemma concat_slices: "concat (map (\<lambda>j. take n (drop (j * n) xs)) [0..<m]) = take (m * n) xs"
proof (induction m)
  case 0
  show ?case by simp
next
  case (Suc m)
  have "take (m * n) xs @ take n (drop (m * n) xs) = take (m * n + n) xs"
    by (simp add: take_add)
  with Suc show ?case by (simp add: add.commute)
qed

lemma ceil_cover: "0 < n \<Longrightarrow> (c::nat) \<le> ((c + n - 1) div n) * n"
proof -
  assume n: "0 < n"
  have "c + n - 1 = ((c + n - 1) div n) * n + (c + n - 1) mod n" by simp
  moreover have "(c + n - 1) mod n < n" using n by simp
  ultimately show ?thesis by linarith
qed

lemma concat_all_slices:
  "0 < n \<Longrightarrow> concat (map (\<lambda>j. take n (drop (j * n) xs)) [0..<(length xs + n - 1) div n]) = xs"
  using ceil_cover[of n "length xs"] by (simp add: concat_slices)

section \<open>Chunking and grouping\<close>

lemma before_first_no_marker: "count_markers m s = 0 \<Longrightarrow> before_first m s = s"
  by (induction s) (auto split: if_splits)

lemma group_single: "group_from 1 0 [x] = Some [x]"
proof -
  have "group_from 1 (0 + 1) [x] = Some []" by (subst group_from.simps) simp
  then show ?thesis by (subst group_from.simps) (simp add: slice_def)
qed

subsection \<open>The text that runExtraction assembles\<close>

lemma join_Cons_append: "join sep (x # xs) = x @ (if xs = [] then [] else sep @ join sep xs)"
  by (cases xs) simp_all

lemma rstrip_prefix: "\<exists>z. y = rev (dropWhile P (rev y)) @ z"
proof -
  have "rev (dropWhile P (rev y)) @ rev (takeWhile P (rev y))
        = rev (takeWhile P (rev y) @ dropWhile P (rev y))"
    by (simp only: rev_append)
  also have "\<dots> = rev (rev y)" by (simp only: takeWhile_dropWhile_id)
  also have "\<dots> = y" by simp
  finally have "y = rev (dropWhile P (rev y)) @ rev (takeWhile P (rev y))" by (rule sym)
  then show ?thesis by (rule exI)
qed

lemma trim_prefix_split:
  assumes "prefix p (trim c)"
  shows "\<exists>w r. c = w @ p @ r \<and> (\<forall>x \<in> set w. is_ws x)"
proof -
  from assms obtain r1 where t: "trim c = p @ r1" by (auto simp: prefix_def)
  obtain z where "dropWhile is_ws c = trim c @ z"
    using rstrip_prefix[of "dropWhile is_ws c" is_ws] by (auto simp: trim_def)
  with t have "dropWhile is_ws c = p @ r1 @ z" by simp
  then have "c = takeWhile is_ws c @ p @ (r1 @ z)"
    using takeWhile_dropWhile_id[of is_ws c] by simp
  moreover have "\<forall>x \<in> set (takeWhile is_ws c). is_ws x" by (auto dest: set_takeWhileD)
  ultimately show ?thesis by blast
qed

lemma before_first_ws_prefix:
  assumes "marker_like m" and "\<forall>x \<in> set w. is_ws x" and "m s"
  shows "before_first m (w @ s) = w"
  using assms(2)
proof (induction w)
  case Nil
  from assms(1,3) obtain c cs where "s = c # cs" by (cases s) (auto simp: marker_like_def)
  with assms(3) show ?case by simp
next
  case (Cons a w)
  then have "\<not> m (a # w @ s)" using assms(1) by (auto simp: marker_like_def)
  with Cons show ?case by simp
qed

lemma block_marker_at: "block_marker ((js ''## ['' @ [0xD134]) @ r)"
  by (simp add: block_marker_def lookahead_def lit_def accept_def)

lemma turn_markdown_shape:
  assumes "turn_markdown fmt t = Inr m"
  shows "\<exists>w r. m = w @ (js ''## ['' @ [0xD134]) @ r \<and> (\<forall>x \<in> set w. is_ws x)"
proof -
  let ?c = "if truthy (get_prop t (js ''content'')) then get_prop t (js ''content'')
            else if truthy (get_prop t (js ''narrative'')) then get_prop t (js ''narrative'')
            else Str []"
  from assms obtain content where c: "?c = Str content"
    by (cases ?c) (simp_all add: turn_markdown_def Let_def)
  with assms have
    m: "m = (if prefix (js ''## ['' @ [0xD134]) (trim content) then content
             else js ''## ['' @ [0xD134] @ js '' '' @ String_js fmt (get_prop t (js ''turnNumber''))
                  @ js '']\<newline>\<newline>'' @ content)"
    by (simp add: turn_markdown_def Let_def)
  show ?thesis
  proof (cases "prefix (js ''## ['' @ [0xD134]) (trim content)")
    case True
    with m trim_prefix_split[OF True] show ?thesis by simp
  next
    case False
    with m have "m = [] @ (js ''## ['' @ [0xD134]) @ (js '' '' @ String_js fmt (get_prop t (js ''turnNumber''))
                  @ js '']\<newline>\<newline>'' @ content)" by simp
    then show ?thesis by (intro exI conjI) (assumption, simp)
  qed
qed

lemma allMarkdown_leading:
  assumes "allMarkdown fmt turns = Inr md"
  shows "trim (before_first block_marker md) = []"
proof -
  from assms obtain ms where ms: "map_turns fmt turns = Inr ms" "md = join (js ''\<newline>\<newline>'') ms"
    by (auto simp: allMarkdown_def split: sum.splits)
  show ?thesis
  proof (cases turns)
    case Nil
    with ms show ?thesis by (simp add: trim_Nil)
  next
    case (Cons t ts)
    with ms(1) obtain m1 rest where m1: "turn_markdown fmt t = Inr m1" "ms = m1 # rest"
      by (auto split: sum.splits)
    from turn_markdown_shape[OF m1(1)] obtain w r where
      w: "m1 = w @ (js ''## ['' @ [0xD134]) @ r" "\<forall>x \<in> set w. is_ws x" by blast
    let ?tail = "if rest = [] then [] else js ''\<newline>\<newline>'' @ join (js ''\<newline>\<newline>'') rest"
    have "md = w @ ((js ''## ['' @ [0xD134]) @ (r @ ?tail))"
      using ms(2) m1(2) w(1) by (simp only: join_Cons_append append_assoc)
    moreover have "before_first block_marker (w @ ((js ''## ['' @ [0xD134]) @ (r @ ?tail))) = w"
      using marker_like_block w(2) block_marker_at by (rule before_first_ws_prefix)
    ultimately have "before_first block_marker md = w" by simp
    with w(2) show ?thesis by (simp add: trim_Nil_iff)
  qed
qed

text \<open>
  Claim C2, as amended. For every batch size \<open>n \<ge> 1\<close>, the chunk-then-group step
  of \<open>chunkByMarker\<close> and of \<open>runExtraction\<close> returns \<open>ceil(c / n)\<close> batches, where
  \<open>c\<close> is the number of chunks: batch \<open>j\<close> is the join of the chunks \<open>j * n\<close> to
  \<open>j * n + n - 1\<close> in their order, and the batches together hold every chunk once.
  The number of chunks of a text with \<open>k\<close> markers is \<open>k\<close> when the text before the
  first marker is empty or white space, and \<open>k + 1\<close> when it is not; the chunks
  together are the text without a blank leading part. The text that \<open>runExtraction\<close>
  assembles from the turns begins with a marker after white space at most, so that
  there the number of chunks is \<open>k\<close>.
\<close>

theorem chunk_then_group:
  assumes "1 \<le> n"
  shows "(\<exists>bs. chunkByMarker text markerType n = Some bs
          \<and> length bs = (length (rawChunks text markerType) + n - 1) div n
          \<and> (\<forall>j < length bs. bs ! j
                = join (js [CHR 0x0A, CHR 0x0A]) (take n (drop (j * n) (rawChunks text markerType))))
          \<and> concat (map (\<lambda>j. take n (drop (j * n) (rawChunks text markerType))) [0..<length bs])
                = rawChunks text markerType)
     \<and> length (rawChunks text markerType)
          = count_markers (marker_regex markerType) text
            + (if trim (before_first (marker_regex markerType) text) = [] then 0 else 1)
     \<and> concat (rawChunks text markerType)
          = (if trim (before_first (marker_regex markerType) text) = []
             then drop (length (before_first (marker_regex markerType) text)) text else text)
     \<and> (\<exists>bs. runExtraction_chunks text n = Some bs
          \<and> length bs = (length (turnBlocks text) + n - 1) div n
          \<and> (\<forall>j < length bs. bs ! j
                = join (js [CHR 0x0A, CHR 0x0A]) (take n (drop (j * n) (turnBlocks text))))
          \<and> concat (map (\<lambda>j. take n (drop (j * n) (turnBlocks text))) [0..<length bs])
                = turnBlocks text)
     \<and> length (turnBlocks text)
          = count_markers block_marker text
            + (if trim (before_first block_marker text) = [] then 0 else 1)
     \<and> concat (turnBlocks text)
          = (if trim (before_first block_marker text) = []
             then drop (length (before_first block_marker text)) text else text)
     \<and> (\<forall>fmt turns md. allMarkdown fmt turns = Inr md
           \<longrightarrow> length (turnBlocks md) = count_markers block_marker md)"
proof -
  from assms have n: "0 < n" by simp
  have asm: "length (turnBlocks md) = count_markers block_marker md"
    if "allMarkdown fmt turns = Inr md" for fmt turns md
    using raw_shape(1)[OF marker_like_block, of md] allMarkdown_leading[OF that]
    by (simp add: turnBlocks_def)
  have grp: "\<exists>bs. group_from n 0 raw = Some bs
          \<and> length bs = (length raw + n - 1) div n
          \<and> (\<forall>j < length bs. bs ! j = join (js [CHR 0x0A, CHR 0x0A]) (take n (drop (j * n) raw)))
          \<and> concat (map (\<lambda>j. take n (drop (j * n) raw)) [0..<length bs]) = raw" for raw
  proof -
    from group_from_shape[OF n, of 0 raw] obtain bs where bs: "group_from n 0 raw = Some bs"
      "length bs = (length raw + n - 1) div n"
      "\<forall>j < length bs. bs ! j = join (js [CHR 0x0A, CHR 0x0A]) (take n (drop (j * n) raw))"
      by auto
    have "concat (map (\<lambda>j. take n (drop (j * n) raw)) [0..<length bs]) = raw"
      unfolding bs(2) by (rule concat_all_slices[OF n])
    with bs show ?thesis by blast
  qed
  show ?thesis
    unfolding chunkByMarker_def runExtraction_chunks_def
    using grp[of "rawChunks text markerType"] grp[of "turnBlocks text"]
      raw_shape[OF marker_like_regex, of markerType "text"]
      raw_shape[OF marker_like_block, of "text"] asm
    by (simp add: rawChunks_def turnBlocks_def)
qed

theorem chunk_then_group_witness:
  "(1::nat) \<le> 2
   \<and> chunkByMarker (js ''a ##['' @ [0xD134] @ js ''1]b ##['' @ [0xD134] @ js ''2]c ##['' @ [0xD134] @ js ''3]'')
        (js ''turn'') 2
      = Some [js ''a \<newline>\<newline>##['' @ [0xD134] @ js ''1]b '',
              js ''##['' @ [0xD134] @ js ''2]c \<newline>\<newline>##['' @ [0xD134] @ js ''3]'']
   \<and> count_markers (marker_regex (js ''turn''))
        (js ''a ##['' @ [0xD134] @ js ''1]b ##['' @ [0xD134] @ js ''2]c ##['' @ [0xD134] @ js ''3]'') = 3
   \<and> length (rawChunks (js ''a ##['' @ [0xD134] @ js ''1]b ##['' @ [0xD134] @ js ''2]c ##['' @ [0xD134] @ js ''3]'')
        (js ''turn'')) = 3 + 1"
proof -
  let ?t = "js ''a ##['' @ [0xD134] @ js ''1]b ##['' @ [0xD134] @ js ''2]c ##['' @ [0xD134] @ js ''3]''"
  have n: "(1::nat) \<le> 2" by simp
  have c: "count_markers (marker_regex (js ''turn'')) ?t = 3" by code_simp
  have b: "trim (before_first (marker_regex (js ''turn'')) ?t) \<noteq> []" by code_simp
  have r: "chunkByMarker ?t (js ''turn'') 2
      = Some [js ''a \<newline>\<newline>##['' @ [0xD134] @ js ''1]b '',
              js ''##['' @ [0xD134] @ js ''2]c \<newline>\<newline>##['' @ [0xD134] @ js ''3]'']" by code_simp
  from chunk_then_group[OF n, of ?t "js ''turn''"] c b
  have "length (rawChunks ?t (js ''turn'')) = 3 + 1" by simp
  with n c r show ?thesis by blast
qed

text \<open>
  The claim as stated, \<open>ceil(k / n)\<close> batches for \<open>k\<close> markers, fails on a text that
  begins with other content: one marker and batch size 1 give two batches.
\<close>

theorem chunk_then_group_counterexample:
  "count_markers (marker_regex (js ''turn'')) (js ''a ##['' @ [0xD134] @ js ''1]b'') = 1
   \<and> chunkByMarker (js ''a ##['' @ [0xD134] @ js ''1]b'') (js ''turn'') 1
       = Some [js ''a '', js ''##['' @ [0xD134] @ js ''1]b'']
   \<and> length [js ''a '', js ''##['' @ [0xD134] @ js ''1]b''] \<noteq> (1 + 1 - 1) div (1::nat)"
  by code_simp

text \<open>
  Claim C3, as amended. For a text without any match of the marker pattern that is not
  all white space, \<open>chunkByMarker\<close> returns exactly one chunk, and the chunk is the
  text as it is: it is not trimmed.
\<close>

theorem chunkByMarker_no_marker:
  assumes "count_markers (marker_regex markerType) text = 0" and "trim text \<noteq> []"
  shows "chunkByMarker text markerType 1 = Some [text]"
proof -
  from assms have bf: "trim (before_first (marker_regex markerType) text) \<noteq> []"
    by (simp add: before_first_no_marker)
  have len: "length (rawChunks text markerType) = 1"
    using raw_shape[OF marker_like_regex, of markerType "text"] assms(1) bf
    by (simp add: rawChunks_def)
  have cc: "concat (rawChunks text markerType) = text"
    using raw_shape[OF marker_like_regex, of markerType "text"] bf
    by (simp add: rawChunks_def)
  from len obtain x where x: "rawChunks text markerType = [x]"
    by (cases "rawChunks text markerType") auto
  with cc have "x = text" by simp
  with x show ?thesis unfolding chunkByMarker_def by (simp only: group_single)
qed

theorem chunkByMarker_no_marker_witness:
  "count_markers (marker_regex (js ''day'')) (js '' no marker here '') = 0
   \<and> trim (js '' no marker here '') \<noteq> []
   \<and> chunkByMarker (js '' no marker here '') (js ''day'') 1 = Some [js '' no marker here '']"
proof -
  have c: "count_markers (marker_regex (js ''day'')) (js '' no marker here '') = 0" by code_simp
  have t: "trim (js '' no marker here '') \<noteq> []" by code_simp
  from chunkByMarker_no_marker[OF c t] c t show ?thesis by blast
qed

text \<open>
  The claim as stated, a single chunk equal to the trimmed text, fails on a text with
  leading white space.
\<close>

theorem chunkByMarker_no_marker_counterexample:
  "count_markers (marker_regex (js ''turn'')) (js '' a'') = 0
   \<and> trim (js '' a'') = js ''a''
   \<and> chunkByMarker (js '' a'') (js ''turn'') 1 = Some [js '' a'']
   \<and> chunkByMarker (js '' a'') (js ''turn'') 1 \<noteq> Some [trim (js '' a'')]"
  by code_simp

section \<open>The fenced block of an LLM response\<close>

subsection \<open>Trimming\<close>





subsection \<open>Occurrences of the fence\<close>


lemma fence_head: "prefix fence (c # cs) \<Longrightarrow> c = 0x60"
  by (simp add: fence_def)


lemma find_first_skip: "c \<noteq> 0x60 \<Longrightarrow> find_first fence (c # cs) = map_option (\<lambda>(a, b). (c # a, b)) (find_first fence cs)"
  by (auto dest: fence_head)





subsection \<open>The matchers\<close>




















section \<open>The result of firestoreGet\<close>

lemma tags_distinct:
  "distinct [js ''stringValue'', js ''integerValue'', js ''doubleValue'', js ''booleanValue'',
             js ''nullValue'', js ''timestampValue'', js ''arrayValue'', js ''mapValue'']"
  by (simp add: js_def)

text \<open>
  On the objects that carry wire values, the reader of parsed bodies is the reader of
  the wire format, and it does not throw.
\<close>

lemma wire_reader:
  "convertFromFirestoreJson env h (json_of w) = Inr (convertFromFirestoreValue env w)"
  "json_values env h (json_of_values ws) = Inr (from_values env ws)"
  "json_fields env h (json_of_fields fs) result = Inr (from_fields env fs result)"
  using tags_distinct
  by (induction env w and env ws and env fs result
        rule: convertFromFirestoreValue_from_values_from_fields.induct)
     (simp_all add: parseInt_of_def new_Date_def)

lemma convertFromFirestoreDoc_wire:
  assumes "own doc (js ''fields'') = Some (JObj (json_of_fields fs))"
    and "own doc (js ''name'') = Some (JStr name)"
  shows "convertFromFirestoreDoc env h doc
     = Inr (Obj (if name = [] then from_fields env fs []
                 else assign (js ''_id'') (Str (last_segment name)) (from_fields env fs [])))"
proof -
  from assms(1) obtain kvs where "doc = JObj kvs"
    by (cases doc) (simp_all add: own_def)
  then have "truthy (native doc)" by simp
  with assms show ?thesis
    by (simp add: convertFromFirestoreDoc_def wire_reader)
qed

lemma convertFromFirestoreDoc_Null:
  "convertFromFirestoreDoc env h doc = Inr Null
     \<longleftrightarrow> \<not> truthy (native doc) \<or> \<not> truthy_prop (own doc (js ''fields''))"
  by (auto simp: convertFromFirestoreDoc_def truthy_prop_def split: sum.splits option.splits json.splits)

lemma provider_message_None: "provider_message b = None \<longleftrightarrow> b = JNull"
  by (auto simp: provider_message_def split: json.splits)

text \<open>
  A failure response whose body is the JSON value \<open>null\<close> raises a TypeError, not
  the error with the status text: \<open>error.error\<close> is read on \<open>null\<close>.
\<close>

lemma firestoreGet_null_body:
  assumes "has_project senv"
    and "store_fetch senv collectionPath docId = Inr response"
    and "status response \<noteq> 404" and "\<not> ok response"
    and "body_json response = Some JNull"
  shows "firestoreGet senv env h collectionPath docId = Inl TypeError"
  using assms
  by (simp add: firestoreGet_def failure_message_def error_body_def provider_message_def)

text \<open>
  Claim C5, as amended. With the project configured and a response from the store:
  on status 404 \<open>firestoreGet\<close> returns \<open>null\<close>; on any other status outside 200 to
  299 it raises an error, and when the body is not the JSON value \<open>null\<close> the error
  carries the provider's message, \<open>error.message\<close> of the body, when that is a
  non-empty string, and the status text when the body is not JSON or holds no truthy
  message; on success it returns what \<open>convertFromFirestoreDoc\<close> makes of the body,
  which for a document in the wire format is the object of its converted fields with
  the document id. The result is \<open>null\<close>
  exactly when the status is 404 or a successful response holds a body that is falsy
  or has no truthy \<open>fields\<close>.
\<close>

theorem firestoreGet_result:
  assumes "has_project senv"
    and "store_fetch senv collectionPath docId = Inr response"
  shows "(status response = 404 \<longrightarrow> firestoreGet senv env h collectionPath docId = Inr Null)
    \<and> (status response \<noteq> 404 \<and> \<not> ok response \<longrightarrow>
          (\<exists>e. firestoreGet senv env h collectionPath docId = Inl e))
    \<and> (status response \<noteq> 404 \<and> \<not> ok response \<and> body_json response \<noteq> Some JNull \<longrightarrow>
          (\<exists>p. provider_message (error_body response) = Some p
             \<and> (\<forall>m. p = Some (JStr m) \<and> m \<noteq> [] \<longrightarrow>
                    firestoreGet senv env h collectionPath docId = Inl (GetFailed m))
             \<and> (\<not> truthy_prop p \<longrightarrow>
                    firestoreGet senv env h collectionPath docId
                      = Inl (GetFailed (statusText response)))))
    \<and> (status response \<noteq> 404 \<and> \<not> ok response \<and> body_json response = None \<longrightarrow>
          firestoreGet senv env h collectionPath docId = Inl (GetFailed (statusText response)))
    \<and> (\<forall>doc. ok response \<and> body_json response = Some doc \<longrightarrow>
          firestoreGet senv env h collectionPath docId = convertFromFirestoreDoc env h doc)
    \<and> (\<forall>doc fs name. ok response \<and> body_json response = Some doc
          \<and> own doc (js ''fields'') = Some (JObj (json_of_fields fs))
          \<and> own doc (js ''name'') = Some (JStr name) \<longrightarrow>
          firestoreGet senv env h collectionPath docId
            = Inr (Obj (if name = [] then from_fields env fs []
                        else assign (js ''_id'') (Str (last_segment name)) (from_fields env fs []))))
    \<and> (firestoreGet senv env h collectionPath docId = Inr Null \<longleftrightarrow>
          status response = 404
          \<or> (ok response \<and> (\<exists>doc. body_json response = Some doc
                \<and> (\<not> truthy (native doc) \<or> \<not> truthy_prop (own doc (js ''fields''))))))"
proof -
  let ?r = "firestoreGet senv env h collectionPath docId"
  have c1: "status response = 404 \<longrightarrow> ?r = Inr Null"
    using assms by (simp add: firestoreGet_def)
  have c2: "status response \<noteq> 404 \<and> \<not> ok response \<longrightarrow> (\<exists>e. ?r = Inl e)"
    using assms by (auto simp: firestoreGet_def split: option.splits)
  have c3: "status response \<noteq> 404 \<and> \<not> ok response \<and> body_json response \<noteq> Some JNull \<longrightarrow>
          (\<exists>p. provider_message (error_body response) = Some p
             \<and> (\<forall>m. p = Some (JStr m) \<and> m \<noteq> [] \<longrightarrow> ?r = Inl (GetFailed m))
             \<and> (\<not> truthy_prop p \<longrightarrow> ?r = Inl (GetFailed (statusText response))))"
  proof (intro impI, elim conjE)
    assume s: "status response \<noteq> 404" and n: "\<not> ok response"
      and b: "body_json response \<noteq> Some JNull"
    from b have "error_body response \<noteq> JNull"
      by (auto simp: error_body_def split: option.splits)
    then obtain p where p: "provider_message (error_body response) = Some p"
      using provider_message_None[of "error_body response"] by auto
    have r: "?r = (case failure_message h response of
                     None \<Rightarrow> Inl TypeError | Some m \<Rightarrow> Inl (GetFailed m))"
      using assms s n by (simp add: firestoreGet_def)
    have "\<forall>m. p = Some (JStr m) \<and> m \<noteq> [] \<longrightarrow> ?r = Inl (GetFailed m)"
      by (auto simp: r failure_message_def p)
    moreover have "\<not> truthy_prop p \<longrightarrow> ?r = Inl (GetFailed (statusText response))"
      by (auto simp: r failure_message_def p truthy_prop_def split: option.splits)
    ultimately show "\<exists>p. provider_message (error_body response) = Some p
             \<and> (\<forall>m. p = Some (JStr m) \<and> m \<noteq> [] \<longrightarrow> ?r = Inl (GetFailed m))
             \<and> (\<not> truthy_prop p \<longrightarrow> ?r = Inl (GetFailed (statusText response)))"
      using p by blast
  qed
  have c4: "status response \<noteq> 404 \<and> \<not> ok response \<and> body_json response = None \<longrightarrow>
          ?r = Inl (GetFailed (statusText response))"
    using assms
    by (simp add: firestoreGet_def failure_message_def error_body_def provider_message_def own_def)
  have c5: "\<forall>doc. ok response \<and> body_json response = Some doc \<longrightarrow>
          ?r = convertFromFirestoreDoc env h doc"
    using assms by (auto simp: firestoreGet_def ok_def)
  have c6: "?r = Inr Null \<longleftrightarrow>
          status response = 404
          \<or> (ok response \<and> (\<exists>doc. body_json response = Some doc
                \<and> (\<not> truthy (native doc) \<or> \<not> truthy_prop (own doc (js ''fields'')))))"
  proof (cases "status response = 404")
    case True
    then show ?thesis using c1 by simp
  next
    case False
    show ?thesis
    proof (cases "ok response")
      case True
      then show ?thesis
        using assms False
        by (cases "body_json response") (simp_all add: firestoreGet_def convertFromFirestoreDoc_Null)
    next
      case nok: False
      then show ?thesis using c2 False by auto
    qed
  qed
  have c7: "\<forall>doc fs name. ok response \<and> body_json response = Some doc
          \<and> own doc (js ''fields'') = Some (JObj (json_of_fields fs))
          \<and> own doc (js ''name'') = Some (JStr name) \<longrightarrow>
          ?r = Inr (Obj (if name = [] then from_fields env fs []
                         else assign (js ''_id'') (Str (last_segment name)) (from_fields env fs [])))"
    using c5 by (simp add: convertFromFirestoreDoc_wire)
  from c1 c2 c3 c4 c5 c7 c6 show ?thesis by (intro conjI)
qed

theorem firestoreGet_result_witness:
  "firestoreGet \<lparr>has_project = True,
       store_fetch = (\<lambda>c d. Inr \<lparr>status = 403, statusText = js ''Forbidden'', body_text = [],
         body_json = Some (JObj [(js ''error'',
                        JObj [(js ''code'', JNum (Finite 403)),
                              (js ''message'', JStr (js ''Missing permissions''))])])\<rparr>)\<rparr>
     \<lparr>toISOString = (\<lambda>_. []), Date_parse = (\<lambda>_. None), now = 0\<rparr>
     \<lparr>String_of = (\<lambda>_. None), Date_of = (\<lambda>_. None)\<rparr> (js ''canvas'') (js ''x'')
   = Inl (GetFailed (js ''Missing permissions''))"
proof -
  let ?b = "JObj [(js ''error'', JObj [(js ''code'', JNum (Finite 403)),
                                      (js ''message'', JStr (js ''Missing permissions''))])]"
  let ?r = "\<lparr>status = 403, statusText = js ''Forbidden'', body_text = [], body_json = Some ?b\<rparr>"
  let ?senv = "\<lparr>has_project = True, store_fetch = (\<lambda>c d. Inr ?r)\<rparr>"
  let ?env = "\<lparr>toISOString = (\<lambda>_. []), Date_parse = (\<lambda>_. None), now = 0\<rparr>"
  let ?h = "\<lparr>String_of = (\<lambda>_. None), Date_of = (\<lambda>_. None)\<rparr>"
  have a: "has_project ?senv" by simp
  have b: "store_fetch ?senv (js ''canvas'') (js ''x'') = Inr ?r" by simp
  have c: "status ?r \<noteq> 404 \<and> \<not> ok ?r \<and> body_json ?r \<noteq> Some JNull" by (simp add: ok_def)
  have d: "provider_message (error_body ?r) = Some (Some (JStr (js ''Missing permissions'')))"
    by (simp add: provider_message_def error_body_def own_def js_def)
  have e: "js ''Missing permissions'' \<noteq> []" by (simp add: js_def)
  from firestoreGet_result[OF a b, of ?env ?h] c
  obtain p where "provider_message (error_body ?r) = Some p"
    and "\<forall>m. p = Some (JStr m) \<and> m \<noteq> [] \<longrightarrow>
           firestoreGet ?senv ?env ?h (js ''canvas'') (js ''x'') = Inl (GetFailed m)"
    by blast
  with d e show ?thesis by simp
qed

text \<open>
  The claim as stated, \<open>null\<close> exactly on status 404, fails on a successful response
  whose document has no \<open>fields\<close>: the result is \<open>null\<close> as well.
\<close>

theorem firestoreGet_result_counterexample:
  "firestoreGet \<lparr>has_project = True,
       store_fetch = (\<lambda>c d. Inr \<lparr>status = 200, statusText = js ''OK'', body_text = [],
         body_json = Some (JObj [(js ''name'', JStr (js ''documents/canvas/x''))])\<rparr>)\<rparr>
     \<lparr>toISOString = (\<lambda>_. []), Date_parse = (\<lambda>_. None), now = 0\<rparr>
     \<lparr>String_of = (\<lambda>_. None), Date_of = (\<lambda>_. None)\<rparr> (js ''canvas'') (js ''x'')
   = Inr Null"
  by (simp add: firestoreGet_def ok_def convertFromFirestoreDoc_def own_def js_def)

section \<open>The batch size\<close>

text \<open>
  Claim C7, as amended. For a non-empty answer to the prompt, the batch size is 10 when
  the answer does not parse to a number, and the parsed value clamped to the interval
  from 1 to 100 when it parses to a number other than 0.
\<close>

theorem effective_chunkSize:
  assumes "chunkSizeStr \<noteq> []" and "parseInt10 chunkSizeStr \<noteq> Some 0"
  shows "runExtraction_chunkSize (Some chunkSizeStr)
           = Some (case parseInt10 chunkSizeStr of None \<Rightarrow> 10 | Some i \<Rightarrow> max 1 (min 100 i))"
  using assms by (simp add: runExtraction_chunkSize_def chunkSize_of_def split: option.splits)

theorem effective_chunkSize_witness:
  "js ''250 turns'' \<noteq> [] \<and> parseInt10 (js ''250 turns'') = Some 250
   \<and> runExtraction_chunkSize (Some (js ''250 turns'')) = Some 100"
proof -
  have a: "js ''250 turns'' \<noteq> []" by (simp add: js_def)
  have p: "parseInt10 (js ''250 turns'') = Some 250" by code_simp
  then have b: "parseInt10 (js ''250 turns'') \<noteq> Some 0" by simp
  from effective_chunkSize[OF a b] a p show ?thesis by simp
qed

text \<open>
  The claim as stated fails on the empty answer: it does not parse to a number, and
  \<open>runExtraction\<close> returns before any batch size is used.
\<close>

theorem effective_chunkSize_counterexample:
  "parseInt10 [] = None \<and> runExtraction_chunkSize (Some []) \<noteq> Some 10"
  by (simp add: runExtraction_chunkSize_def parseInt10_def)

text \<open>The answer \<open>0\<close> parses to a number below 1 and gives the default 10, not 1.\<close>

lemma chunkSize_zero:
  "parseInt10 (js ''0'') = Some 0 \<and> runExtraction_chunkSize (Some (js ''0'')) = Some 10"
  by code_simp

section \<open>The loop of either extraction path\<close>

lemma batch_loop_eq:
  "batch_loop env markerType extractionLevel onProgress chunks i results trace
     = (trace @ concat (map (batch_events onProgress chunks) [i..<length chunks]),
        results @ map (entry_of env markerType extractionLevel chunks) [i..<length chunks])"
proof (induction env markerType extractionLevel onProgress chunks i results trace rule: batch_loop.induct)
  case (1 env markerType extractionLevel onProgress chunks i results trace)
  show ?case
  proof (cases "i < length chunks")
    case False
    then show ?thesis by (subst batch_loop.simps) simp
  next
    case True
    then have u: "[i..<length chunks] = i # [i + 1..<length chunks]" by (simp add: upt_conv_Cons)
    have "batch_loop env markerType extractionLevel onProgress chunks i results trace
          = batch_loop env markerType extractionLevel onProgress chunks (i + 1)
              (results @ [entry_of env markerType extractionLevel chunks i])
              (trace @ batch_events onProgress chunks i)"
      by (subst batch_loop.simps) (simp add: True entry_of_def batch_events_def)
    also have "\<dots> = (trace @ concat (map (batch_events onProgress chunks) [i..<length chunks]),
        results @ map (entry_of env markerType extractionLevel chunks) [i..<length chunks])"
      using 1[OF True, folded entry_of_def batch_events_def] by (simp add: u)
    finally show ?thesis .
  qed
qed

lemma process_batches_ok:
  assumes "\<forall>j. i \<le> j \<and> j < length chunks
             \<longrightarrow> callLLM env j (userMessage_of (chunks ! j)) systemPrompt = Inr (res j)"
  shows "process_batches env systemPrompt chunks i acc trace
     = (trace @ concat (map (run_events chunks) [i..<length chunks]),
        Inr (acc @ map res [i..<length chunks]))"
  using assms
proof (induction env systemPrompt chunks i acc trace rule: process_batches.induct)
  case (1 env systemPrompt chunks i acc trace)
  show ?case
  proof (cases "i < length chunks")
    case False
    then show ?thesis by (subst process_batches.simps) simp
  next
    case True
    then have u: "[i..<length chunks] = i # [i + 1..<length chunks]" by (simp add: upt_conv_Cons)
    from True 1(2) have c: "callLLM env i (userMessage_of (chunks ! i)) systemPrompt = Inr (res i)"
      by simp
    from 1(2) have "\<forall>j. i + 1 \<le> j \<and> j < length chunks
             \<longrightarrow> callLLM env j (userMessage_of (chunks ! j)) systemPrompt = Inr (res j)" by simp
    note IH = 1(1)[OF True c this, folded run_events_def]
    have "process_batches env systemPrompt chunks i acc trace
          = process_batches env systemPrompt chunks (i + 1) (acc @ [res i]) (trace @ run_events chunks i)"
      by (subst process_batches.simps) (simp add: True c run_events_def)
    also have "\<dots> = (trace @ concat (map (run_events chunks) [i..<length chunks]),
        Inr (acc @ map res [i..<length chunks]))"
      using IH by (simp add: u)
    finally show ?thesis .
  qed
qed

lemma process_batches_fail:
  assumes "i \<le> k" and "k < length chunks"
    and "\<forall>j. i \<le> j \<and> j < k
             \<longrightarrow> (\<exists>r. callLLM env j (userMessage_of (chunks ! j)) systemPrompt = Inr r)"
    and "callLLM env k (userMessage_of (chunks ! k)) systemPrompt = Inl e"
  shows "process_batches env systemPrompt chunks i acc trace
     = (trace @ concat (map (run_events chunks) [i..<k]) @ [Called k (userMessage_of (chunks ! k))],
        Inl e)"
  using assms
proof (induction env systemPrompt chunks i acc trace rule: process_batches.induct)
  case (1 env systemPrompt chunks i acc trace)
  from 1(2,3) have il: "i < length chunks" by simp
  show ?case
  proof (cases "i = k")
    case True
    with 1(5) il show ?thesis by (subst process_batches.simps) simp
  next
    case False
    with 1(2) have ik: "i < k" by simp
    with 1(4) obtain r where r: "callLLM env i (userMessage_of (chunks ! i)) systemPrompt = Inr r"
      by blast
    from ik have u: "[i..<k] = i # [i + 1..<k]" by (simp add: upt_conv_Cons)
    from ik have a: "i + 1 \<le> k" by simp
    from 1(4) have b: "\<forall>j. i + 1 \<le> j \<and> j < k
             \<longrightarrow> (\<exists>r. callLLM env j (userMessage_of (chunks ! j)) systemPrompt = Inr r)" by simp
    note IH = 1(1)[OF il r a 1(3) b 1(5), folded run_events_def]
    have "process_batches env systemPrompt chunks i acc trace
          = process_batches env systemPrompt chunks (i + 1) (acc @ [r]) (trace @ run_events chunks i)"
      by (subst process_batches.simps) (simp add: il r run_events_def)
    also have "\<dots> = (trace @ concat (map (run_events chunks) [i..<k])
                          @ [Called k (userMessage_of (chunks ! k))], Inl e)"
      using IH by (simp add: u)
    finally show ?thesis .
  qed
qed

lemma filter_concat_map:
  "filter P (concat (map f xs)) = concat (map (\<lambda>x. filter P (f x)) xs)"
  by (induction xs) simp_all

lemma waits_up_to:
  assumes "k \<le> n - 1"
  shows "concat (map (\<lambda>j. if j < n - 1 then [Waited ms] else []) [0..<k]) = replicate k (Waited ms)"
  using assms
proof (induction k)
  case 0
  show ?case by simp
next
  case (Suc k)
  then show ?case by (simp add: replicate_append_same)
qed

lemma waits_all:
  "concat (map (\<lambda>j. if j < n - 1 then [Waited ms] else []) [0..<n]) = replicate (n - 1) (Waited ms)"
proof (cases n)
  case 0
  then show ?thesis by simp
next
  case (Suc m)
  have "concat (map (\<lambda>j. if j < Suc m - 1 then [Waited ms] else []) [0..<m]) = replicate m (Waited ms)"
    by (rule waits_up_to) simp
  with Suc show ?thesis by simp
qed

lemma chunkByMarker_one: "\<exists>chunks. chunkByMarker fullText markerType 1 = Some chunks"
  using group_from_shape[of 1 0 "rawChunks fullText markerType"]
  by (auto simp: chunkByMarker_def)

text \<open>
  Claim C10. For every text and marker type, whatever the extraction level and the
  outcomes of the calls, \<open>batchExtract\<close> returns, and its array has one entry for each
  chunk of \<open>chunkByMarker\<close>, in the order of the chunks: the entry at position \<open>i\<close>
  has index \<open>i\<close> and is the success entry with the data of chunk \<open>i\<close> or the
  failure entry with its error.
\<close>

theorem batchExtract_entries:
  "\<exists>chunks trace results.
      chunkByMarker fullText markerType 1 = Some chunks
    \<and> batchExtract env fullText markerType extractionLevel onProgress = Some (trace, results)
    \<and> length results = length chunks
    \<and> (\<forall>i < length chunks. index (results ! i) = i
          \<and> results ! i = (case extract_chunk env markerType extractionLevel i (chunks ! i) of
                             Inr result \<Rightarrow> Succeeded i result
                           | Inl e \<Rightarrow> Failed_entry i e))"
proof -
  obtain chunks where c: "chunkByMarker fullText markerType 1 = Some chunks"
    using chunkByMarker_one by blast
  let ?results = "map (entry_of env markerType extractionLevel chunks) [0..<length chunks]"
  let ?trace = "concat (map (batch_events onProgress chunks) [0..<length chunks])"
  have b: "batchExtract env fullText markerType extractionLevel onProgress = Some (?trace, ?results)"
    unfolding batchExtract_def c by (simp add: batch_loop_eq)
  have l: "length ?results = length chunks" by simp
  have n: "\<forall>i < length chunks. index (?results ! i) = i
          \<and> ?results ! i = (case extract_chunk env markerType extractionLevel i (chunks ! i) of
                             Inr result \<Rightarrow> Succeeded i result
                           | Inl e \<Rightarrow> Failed_entry i e)"
    by (auto simp: entry_of_def split: sum.splits)
  from c b l n show ?thesis by blast
qed

lemma run_events_filter:
  "filter (\<lambda>x. is_Called x \<or> is_Waited x) (run_events chunks j) = run_events chunks j"
  "filter is_Waited (run_events chunks j) = (if j < length chunks - 1 then [Waited 2000] else [])"
  by (simp_all add: run_events_def)

lemma batch_events_filter:
  "filter (\<lambda>x. is_Called x \<or> is_Waited x) (batch_events onProgress chunks j)
     = Called j (chunks ! j) # (if j < length chunks - 1 then [Waited 500] else [])"
  "filter is_Waited (batch_events onProgress chunks j) = (if j < length chunks - 1 then [Waited 500] else [])"
  by (simp_all add: batch_events_def)

lemma run_events_before:
  assumes "k < length chunks"
  shows "map (run_events chunks) [0..<k]
         = map (\<lambda>j. [Called j (userMessage_of (chunks ! j)), Waited 2000]) [0..<k]"
  using assms by (intro map_cong) (auto simp: run_events_def)

lemma runExtraction_fail:
  assumes "has_api_key (llm env)"
    and "runExtraction_chunkSize (prompt_answer env) = Some chunkSize"
    and "allMarkdown (number_format env) turns = Inr md"
    and "runExtraction_chunks md (nat chunkSize) = Some chunks"
    and "k < length chunks"
    and "\<forall>j < k. \<exists>r. callLLM (llm env) j (userMessage_of (chunks ! j)) (refiner_prompt env) = Inr r"
    and "callLLM (llm env) k (userMessage_of (chunks ! k)) (refiner_prompt env) = Inl e"
  shows "runExtraction env turns
         = (Asked # concat (map (\<lambda>j. [Called j (userMessage_of (chunks ! j)), Waited 2000]) [0..<k])
              @ [Called k (userMessage_of (chunks ! k))],
            Failed (LLMError e))"
proof -
  from assms(5) have ne: "chunks \<noteq> []" by auto
  have "process_batches (llm env) (refiner_prompt env) chunks 0 [] [Asked]
        = ([Asked] @ concat (map (run_events chunks) [0..<k]) @ [Called k (userMessage_of (chunks ! k))], Inl e)"
    using assms(5,6,7) by (intro process_batches_fail) auto
  then show ?thesis
    using assms(1-4) ne by (simp add: runExtraction_def run_events_before[OF assms(5)])
qed

lemma runExtraction_ok:
  assumes "has_api_key (llm env)"
    and "runExtraction_chunkSize (prompt_answer env) = Some chunkSize"
    and "allMarkdown (number_format env) turns = Inr md"
    and "runExtraction_chunks md (nat chunkSize) = Some chunks"
    and "\<forall>j < length chunks. \<exists>r. callLLM (llm env) j (userMessage_of (chunks ! j)) (refiner_prompt env) = Inr r"
  obtains after where
    "fst (runExtraction env turns) = Asked # concat (map (run_events chunks) [0..<length chunks]) @ after"
    and "filter (\<lambda>x. is_Called x \<or> is_Waited x) after = []"
    and "filter is_Waited after = []"
proof (cases "chunks = []")
  case True
  with assms(1-4) have "fst (runExtraction env turns)
      = Asked # concat (map (run_events chunks) [0..<length chunks]) @ []"
    by (simp add: runExtraction_def)
  then show thesis by (rule that) simp_all
next
  case False
  let ?res = "\<lambda>j. projr (callLLM (llm env) j (userMessage_of (chunks ! j)) (refiner_prompt env))"
  let ?final = "join (js '',\<newline>'') (filter (\<lambda>r. trim r \<noteq> []) (map ?res [0..<length chunks]))"
  let ?after = "(if store_available env then [StoreSet chunkSize (length chunks) ?final] else [])
                @ [Confirmed]
                @ (if confirm_download env then [Downloaded (js ''['' @ ?final @ js '']'')] else [])"
  have "\<forall>j. 0 \<le> j \<and> j < length chunks \<longrightarrow>
          callLLM (llm env) j (userMessage_of (chunks ! j)) (refiner_prompt env) = Inr (?res j)"
    using assms(5) by auto
  then have "process_batches (llm env) (refiner_prompt env) chunks 0 [] [Asked]
        = ([Asked] @ concat (map (run_events chunks) [0..<length chunks]),
           Inr ([] @ map ?res [0..<length chunks]))"
    by (rule process_batches_ok)
  then have "fst (runExtraction env turns)
      = Asked # concat (map (run_events chunks) [0..<length chunks]) @ ?after"
    using assms(1-4) False by (simp add: runExtraction_def Let_def)
  then show thesis by (rule that) simp_all
qed

section \<open>Failure policy\<close>

text \<open>
  Claim C6. In \<open>runExtraction\<close>, when the call of batch \<open>k\<close> is the first to fail,
  the run ends with that error: no batch after \<open>k\<close> is called, nothing is written to
  the store and nothing is downloaded. In \<open>batchExtract\<close>, when the extraction of chunk
  \<open>i\<close> fails, the result holds the failure entry with index \<open>i\<close> and the error at
  position \<open>i\<close>, and the loop goes on: chunk \<open>i + 1\<close>, when there is one, is called
  and has its entry.
\<close>

theorem failure_policy:
  "(has_api_key (llm env)
      \<and> runExtraction_chunkSize (prompt_answer env) = Some chunkSize
      \<and> allMarkdown (number_format env) turns = Inr md
      \<and> runExtraction_chunks md (nat chunkSize) = Some batches
      \<and> k < length batches
      \<and> (\<forall>j < k. \<exists>r. callLLM (llm env) j (userMessage_of (batches ! j)) (refiner_prompt env) = Inr r)
      \<and> callLLM (llm env) k (userMessage_of (batches ! k)) (refiner_prompt env) = Inl e
    \<longrightarrow> snd (runExtraction env turns) = Failed (LLMError e)
        \<and> (\<forall>x \<in> set (fst (runExtraction env turns)).
              \<not> is_StoreSet x \<and> \<not> is_Downloaded x \<and> (\<forall>j m. x = Called j m \<longrightarrow> j \<le> k)))
   \<and> (chunkByMarker fullText markerType 1 = Some chunks
      \<and> i < length chunks
      \<and> extract_chunk lenv markerType extractionLevel i (chunks ! i) = Inl err
    \<longrightarrow> (\<exists>trace results.
           batchExtract lenv fullText markerType extractionLevel onProgress = Some (trace, results)
         \<and> length results = length chunks
         \<and> results ! i = Failed_entry i err
         \<and> (i + 1 < length chunks \<longrightarrow>
               Called (i + 1) (chunks ! (i + 1)) \<in> set trace
             \<and> index (results ! (i + 1)) = i + 1)))"
proof (intro conjI impI)
  assume a: "has_api_key (llm env)
      \<and> runExtraction_chunkSize (prompt_answer env) = Some chunkSize
      \<and> allMarkdown (number_format env) turns = Inr md
      \<and> runExtraction_chunks md (nat chunkSize) = Some batches
      \<and> k < length batches
      \<and> (\<forall>j < k. \<exists>r. callLLM (llm env) j (userMessage_of (batches ! j)) (refiner_prompt env) = Inr r)
      \<and> callLLM (llm env) k (userMessage_of (batches ! k)) (refiner_prompt env) = Inl e"
  then have r: "runExtraction env turns
         = (Asked # concat (map (\<lambda>j. [Called j (userMessage_of (batches ! j)), Waited 2000]) [0..<k])
              @ [Called k (userMessage_of (batches ! k))],
            Failed (LLMError e))"
    by (intro runExtraction_fail) blast+
  show "snd (runExtraction env turns) = Failed (LLMError e)" by (simp add: r)
  show "\<forall>x \<in> set (fst (runExtraction env turns)).
          \<not> is_StoreSet x \<and> \<not> is_Downloaded x \<and> (\<forall>j m. x = Called j m \<longrightarrow> j \<le> k)"
    by (auto simp: r)
next
  assume b: "chunkByMarker fullText markerType 1 = Some chunks
      \<and> i < length chunks
      \<and> extract_chunk lenv markerType extractionLevel i (chunks ! i) = Inl err"
  let ?results = "map (entry_of lenv markerType extractionLevel chunks) [0..<length chunks]"
  let ?trace = "concat (map (batch_events onProgress chunks) [0..<length chunks])"
  from b have c: "chunkByMarker fullText markerType 1 = Some chunks" by simp
  have be: "batchExtract lenv fullText markerType extractionLevel onProgress = Some (?trace, ?results)"
    unfolding batchExtract_def c by (simp add: batch_loop_eq)
  have l: "length ?results = length chunks" by simp
  have f: "?results ! i = Failed_entry i err" using b by (simp add: entry_of_def)
  have n: "i + 1 < length chunks \<longrightarrow>
             Called (i + 1) (chunks ! (i + 1)) \<in> set ?trace \<and> index (?results ! (i + 1)) = i + 1"
  proof
    assume s: "i + 1 < length chunks"
    have "Called (i + 1) (chunks ! (i + 1)) \<in> set (batch_events onProgress chunks (i + 1))"
      by (simp add: batch_events_def)
    moreover have "i + 1 \<in> set [0..<length chunks]" using s by simp
    ultimately have "Called (i + 1) (chunks ! (i + 1)) \<in> set ?trace" by (auto simp del: upt_Suc)
    moreover have "index (?results ! (i + 1)) = i + 1"
      using s by (auto simp: entry_of_def split: sum.splits)
    ultimately show "Called (i + 1) (chunks ! (i + 1)) \<in> set ?trace \<and> index (?results ! (i + 1)) = i + 1"
      by simp
  qed
  from be l f n show "\<exists>trace results.
           batchExtract lenv fullText markerType extractionLevel onProgress = Some (trace, results)
         \<and> length results = length chunks
         \<and> results ! i = Failed_entry i err
         \<and> (i + 1 < length chunks \<longrightarrow>
               Called (i + 1) (chunks ! (i + 1)) \<in> set trace
             \<and> index (results ! (i + 1)) = i + 1)" by blast
qed

lemma example_facts:
  "has_api_key (llm (example_run_env fails))"
  "runExtraction_chunkSize (prompt_answer (example_run_env fails)) = Some 1"
  "allMarkdown (number_format (example_run_env fails)) example_turns
     = Inr (js ''## ['' @ [0xD134] @ js '' 0]\<newline>\<newline>a\<newline>\<newline>## ['' @ [0xD134]
            @ js '' 0]\<newline>\<newline>b\<newline>\<newline>## ['' @ [0xD134] @ js '' 0]\<newline>\<newline>c'')"
  by (simp add: example_run_env_def, code_simp, code_simp)

lemma example_batches:
  "runExtraction_chunks (js ''## ['' @ [0xD134] @ js '' 0]\<newline>\<newline>a\<newline>\<newline>## ['' @ [0xD134]
            @ js '' 0]\<newline>\<newline>b\<newline>\<newline>## ['' @ [0xD134] @ js '' 0]\<newline>\<newline>c'') (nat 1)
     = Some [js ''## ['' @ [0xD134] @ js '' 0]\<newline>\<newline>a\<newline>\<newline>'',
             js ''## ['' @ [0xD134] @ js '' 0]\<newline>\<newline>b\<newline>\<newline>'',
             js ''## ['' @ [0xD134] @ js '' 0]\<newline>\<newline>c'']"
  by code_simp

lemma example_call:
  "callLLM (llm (example_run_env fails)) j m (refiner_prompt (example_run_env fails))
     = (if fails j then Inl (HttpFailure 500 (js ''overloaded'')) else Inr (js ''{}''))"
proof -
  have "extract_text (response_text (Some [Some (js ''{}'')])) = js ''{}''" by code_simp
  then show ?thesis
    by (simp add: example_run_env_def callLLM_def answer_ok_def answer_500_def ok_def js_def)
qed

section \<open>Pacing delays\<close>

lemma pace_batch:
  assumes c: "chunkByMarker fullText markerType 1 = Some chunks"
  shows "\<exists>trace results.
           batchExtract lenv fullText markerType extractionLevel onProgress = Some (trace, results)
         \<and> filter (\<lambda>x. is_Called x \<or> is_Waited x) trace
             = concat (map (\<lambda>j. Called j (chunks ! j) # (if j < length chunks - 1 then [Waited 500] else []))
                 [0..<length chunks])
         \<and> filter is_Waited trace = replicate (length chunks - 1) (Waited 500)"
proof -
  let ?results = "map (entry_of lenv markerType extractionLevel chunks) [0..<length chunks]"
  let ?trace = "concat (map (batch_events onProgress chunks) [0..<length chunks])"
  have be: "batchExtract lenv fullText markerType extractionLevel onProgress = Some (?trace, ?results)"
    unfolding batchExtract_def c by (simp add: batch_loop_eq)
  have f1: "filter (\<lambda>x. is_Called x \<or> is_Waited x) ?trace
             = concat (map (\<lambda>j. Called j (chunks ! j) # (if j < length chunks - 1 then [Waited 500] else []))
                 [0..<length chunks])"
    by (simp only: filter_concat_map batch_events_filter)
  have f2: "filter is_Waited ?trace = replicate (length chunks - 1) (Waited 500)"
    by (simp only: filter_concat_map batch_events_filter waits_all)
  show ?thesis
    by (intro exI[of _ ?trace] exI[of _ ?results] conjI) (rule be f1 f2)+
qed

lemma pace_ok:
  assumes "has_api_key (llm env)"
    and "runExtraction_chunkSize (prompt_answer env) = Some chunkSize"
    and "allMarkdown (number_format env) turns = Inr md"
    and "runExtraction_chunks md (nat chunkSize) = Some batches"
    and "\<forall>j < length batches.
            \<exists>r. callLLM (llm env) j (userMessage_of (batches ! j)) (refiner_prompt env) = Inr r"
  shows "filter (\<lambda>x. is_Called x \<or> is_Waited x) (fst (runExtraction env turns))
          = concat (map (\<lambda>j. Called j (userMessage_of (batches ! j))
                               # (if j < length batches - 1 then [Waited 2000] else []))
              [0..<length batches])"
    and "filter is_Waited (fst (runExtraction env turns)) = replicate (length batches - 1) (Waited 2000)"
proof -
  from assms obtain after where
    t: "fst (runExtraction env turns) = Asked # concat (map (run_events batches) [0..<length batches]) @ after"
    and fa: "filter (\<lambda>x. is_Called x \<or> is_Waited x) after = []" "filter is_Waited after = []"
    by (rule runExtraction_ok)
  have e: "run_events batches = (\<lambda>j. Called j (userMessage_of (batches ! j))
                               # (if j < length batches - 1 then [Waited 2000] else []))"
    by (rule ext) (simp add: run_events_def)
  have "filter (\<lambda>x. is_Called x \<or> is_Waited x) (fst (runExtraction env turns))
        = concat (map (run_events batches) [0..<length batches])"
    unfolding t by (simp add: fa filter_concat_map run_events_filter)
  then show "filter (\<lambda>x. is_Called x \<or> is_Waited x) (fst (runExtraction env turns))
          = concat (map (\<lambda>j. Called j (userMessage_of (batches ! j))
                               # (if j < length batches - 1 then [Waited 2000] else []))
              [0..<length batches])"
    by (simp only: e)
  show "filter is_Waited (fst (runExtraction env turns)) = replicate (length batches - 1) (Waited 2000)"
    unfolding t using waits_all[of "length batches" 2000]
    by (simp add: fa filter_concat_map run_events_filter)
qed

lemma pace_fail:
  assumes "has_api_key (llm env)"
    and "runExtraction_chunkSize (prompt_answer env) = Some chunkSize"
    and "allMarkdown (number_format env) turns = Inr md"
    and "runExtraction_chunks md (nat chunkSize) = Some batches"
    and "k < length batches"
    and "\<forall>j < k. \<exists>r. callLLM (llm env) j (userMessage_of (batches ! j)) (refiner_prompt env) = Inr r"
    and "callLLM (llm env) k (userMessage_of (batches ! k)) (refiner_prompt env) = Inl e"
  shows "filter (\<lambda>x. is_Called x \<or> is_Waited x) (fst (runExtraction env turns))
          = concat (map (\<lambda>j. [Called j (userMessage_of (batches ! j)), Waited 2000]) [0..<k])
            @ [Called k (userMessage_of (batches ! k))]"
    and "filter is_Waited (fst (runExtraction env turns)) = replicate k (Waited 2000)"
proof -
  note r = runExtraction_fail[OF assms]
  have w: "concat (map (\<lambda>j. [Waited 2000]) [0..<k]) = replicate k (Waited (2000::nat))"
    by (induction k) (simp_all add: replicate_append_same)
  show "filter (\<lambda>x. is_Called x \<or> is_Waited x) (fst (runExtraction env turns))
          = concat (map (\<lambda>j. [Called j (userMessage_of (batches ! j)), Waited 2000]) [0..<k])
            @ [Called k (userMessage_of (batches ! k))]"
    by (simp add: r filter_concat_map)
  show "filter is_Waited (fst (runExtraction env turns)) = replicate k (Waited 2000)"
    by (simp add: r filter_concat_map map_replicate_const)
qed

lemma example_batch_facts:
  "chunkByMarker example_text (js ''turn'') 1
     = Some [js ''##['' @ [0xD134] @ js ''1]a'', js ''##['' @ [0xD134] @ js ''2]b'',
             js ''##['' @ [0xD134] @ js ''3]c'']"
  "extract_chunk example_lite_env (js ''turn'') (js ''micro'') 1 (js ''##['' @ [0xD134] @ js ''2]b'')
     = Inl (LLMFetchRejected (js ''offline''))"
  by code_simp+

theorem failure_policy_witness:
  "snd (runExtraction (example_run_env (\<lambda>i. i = 1)) example_turns)
     = Failed (LLMError (HttpFailure 500 (js ''overloaded'')))
   \<and> (\<exists>trace results.
         batchExtract example_lite_env example_text (js ''turn'') (js ''micro'') False
           = Some (trace, results)
       \<and> length results = 3
       \<and> results ! 1 = Failed_entry 1 (LLMFetchRejected (js ''offline''))
       \<and> Called 2 (js ''##['' @ [0xD134] @ js ''3]c'') \<in> set trace
       \<and> index (results ! 2) = 2)"
proof -
  let ?env = "example_run_env (\<lambda>i. i = 1)"
  let ?bs = "[js ''## ['' @ [0xD134] @ js '' 0]\<newline>\<newline>a\<newline>\<newline>'',
             js ''## ['' @ [0xD134] @ js '' 0]\<newline>\<newline>b\<newline>\<newline>'',
             js ''## ['' @ [0xD134] @ js '' 0]\<newline>\<newline>c'']"
  let ?cs = "[js ''##['' @ [0xD134] @ js ''1]a'', js ''##['' @ [0xD134] @ js ''2]b'',
             js ''##['' @ [0xD134] @ js ''3]c'']"
  note fp = failure_policy[where env = ?env and turns = example_turns and chunkSize = 1
      and md = "js ''## ['' @ [0xD134] @ js '' 0]\<newline>\<newline>a\<newline>\<newline>## ['' @ [0xD134]
            @ js '' 0]\<newline>\<newline>b\<newline>\<newline>## ['' @ [0xD134] @ js '' 0]\<newline>\<newline>c''"
      and batches = ?bs and k = 1 and e = "HttpFailure 500 (js ''overloaded'')"
      and fullText = example_text and markerType = "js ''turn''" and chunks = ?cs and i = 1
      and lenv = example_lite_env and extractionLevel = "js ''micro''"
      and err = "LLMFetchRejected (js ''offline'')" and onProgress = False]
  have k: "(1::nat) < length ?bs" by simp
  have before: "\<forall>j < 1. \<exists>r. callLLM (llm ?env) j (userMessage_of (?bs ! j)) (refiner_prompt ?env) = Inr r"
    by (simp add: example_call)
  have at: "callLLM (llm ?env) 1 (userMessage_of (?bs ! 1)) (refiner_prompt ?env)
              = Inl (HttpFailure 500 (js ''overloaded''))"
    by (simp add: example_call)
  have A: "snd (runExtraction ?env example_turns) = Failed (LLMError (HttpFailure 500 (js ''overloaded'')))"
    by (rule fp[THEN conjunct1, THEN mp, THEN conjunct1])
       (intro conjI example_facts example_batches k before at)
  have i: "(1::nat) < length ?cs" by simp
  have x: "extract_chunk example_lite_env (js ''turn'') (js ''micro'') 1 (?cs ! 1)
             = Inl (LLMFetchRejected (js ''offline''))"
    using example_batch_facts(2) by simp
  have "\<exists>trace results.
           batchExtract example_lite_env example_text (js ''turn'') (js ''micro'') False = Some (trace, results)
         \<and> length results = length ?cs
         \<and> results ! 1 = Failed_entry 1 (LLMFetchRejected (js ''offline''))
         \<and> (1 + 1 < length ?cs \<longrightarrow>
               Called (1 + 1) (?cs ! (1 + 1)) \<in> set trace
             \<and> index (results ! (1 + 1)) = 1 + 1)"
    by (rule fp[THEN conjunct2, THEN mp]) (intro conjI example_batch_facts(1) i x)
  then obtain trace results where
    B: "batchExtract example_lite_env example_text (js ''turn'') (js ''micro'') False = Some (trace, results)"
      "length results = length ?cs"
      "results ! 1 = Failed_entry 1 (LLMFetchRejected (js ''offline''))"
      "1 + 1 < length ?cs \<longrightarrow> Called (1 + 1) (?cs ! (1 + 1)) \<in> set trace \<and> index (results ! (1 + 1)) = 1 + 1"
    by (elim exE conjE)
  from B(2) have l: "length results = 3" by simp
  from B(4) have c2: "Called 2 (js ''##['' @ [0xD134] @ js ''3]c'') \<in> set trace" "index (results ! 2) = 2"
    by (simp_all add: numeral_2_eq_2)
  show ?thesis
    by (intro conjI exI[of _ trace] exI[of _ results]) (rule A B(1) l B(3) c2)+
qed

theorem batchExtract_entries_witness:
  "\<exists>trace results.
      batchExtract example_lite_env example_text (js ''turn'') (js ''micro'') True = Some (trace, results)
    \<and> length results = 3
    \<and> index (results ! 1) = 1
    \<and> results ! 1 = Failed_entry 1 (LLMFetchRejected (js ''offline''))"
proof -
  let ?cs = "[js ''##['' @ [0xD134] @ js ''1]a'', js ''##['' @ [0xD134] @ js ''2]b'',
             js ''##['' @ [0xD134] @ js ''3]c'']"
  from batchExtract_entries[of example_text "js ''turn''" example_lite_env "js ''micro''" True]
  obtain chunks trace results where
    c: "chunkByMarker example_text (js ''turn'') 1 = Some chunks"
    and b: "batchExtract example_lite_env example_text (js ''turn'') (js ''micro'') True = Some (trace, results)"
    and l: "length results = length chunks"
    and n: "\<forall>i < length chunks. index (results ! i) = i
          \<and> results ! i = (case extract_chunk example_lite_env (js ''turn'') (js ''micro'') i (chunks ! i) of
                             Inr result \<Rightarrow> Succeeded i result
                           | Inl e \<Rightarrow> Failed_entry i e)"
    by (elim exE conjE)
  from c example_batch_facts(1) have cs: "chunks = ?cs" by simp
  have x: "extract_chunk example_lite_env (js ''turn'') (js ''micro'') 1 (chunks ! 1)
             = Inl (LLMFetchRejected (js ''offline''))"
    unfolding cs using example_batch_facts(2) by simp
  have one: "1 < length chunks" unfolding cs by simp
  note n[rule_format, OF one]
  then have r: "index (results ! 1) = 1" "results ! 1 = Failed_entry 1 (LLMFetchRejected (js ''offline''))"
    unfolding x by simp_all
  from l have l3: "length results = 3" unfolding cs by simp
  show ?thesis
    by (intro conjI exI[of _ trace] exI[of _ results]) (rule b l3 r)+
qed

text \<open>
  Claim C8, as amended. In \<open>batchExtract\<close> with \<open>b\<close> chunks, a delay of 500 ms
  follows the call of every chunk but the last: \<open>b - 1\<close> delays. In a run of
  \<open>runExtraction\<close> with \<open>b\<close> batches whose calls all succeed, a delay of 2000 ms
  follows the call of every batch but the last: \<open>b - 1\<close> delays. In a run of
  \<open>runExtraction\<close> whose call of batch \<open>k\<close> is the first to fail, a delay of 2000 ms
  follows each of the \<open>k\<close> calls before it and none follows the failed call.
\<close>

theorem pacing_delays:
  "(chunkByMarker fullText markerType 1 = Some chunks
    \<longrightarrow> (\<exists>trace results.
           batchExtract lenv fullText markerType extractionLevel onProgress = Some (trace, results)
         \<and> filter (\<lambda>x. is_Called x \<or> is_Waited x) trace
             = concat (map (\<lambda>j. Called j (chunks ! j) # (if j < length chunks - 1 then [Waited 500] else []))
                 [0..<length chunks])
         \<and> filter is_Waited trace = replicate (length chunks - 1) (Waited 500)))
   \<and> (has_api_key (llm env)
      \<and> runExtraction_chunkSize (prompt_answer env) = Some chunkSize
      \<and> allMarkdown (number_format env) turns = Inr md
      \<and> runExtraction_chunks md (nat chunkSize) = Some batches
      \<and> (\<forall>j < length batches.
            \<exists>r. callLLM (llm env) j (userMessage_of (batches ! j)) (refiner_prompt env) = Inr r)
    \<longrightarrow> filter (\<lambda>x. is_Called x \<or> is_Waited x) (fst (runExtraction env turns))
          = concat (map (\<lambda>j. Called j (userMessage_of (batches ! j))
                               # (if j < length batches - 1 then [Waited 2000] else []))
              [0..<length batches])
        \<and> filter is_Waited (fst (runExtraction env turns)) = replicate (length batches - 1) (Waited 2000))
   \<and> (has_api_key (llm env)
      \<and> runExtraction_chunkSize (prompt_answer env) = Some chunkSize
      \<and> allMarkdown (number_format env) turns = Inr md
      \<and> runExtraction_chunks md (nat chunkSize) = Some batches
      \<and> k < length batches
      \<and> (\<forall>j < k. \<exists>r. callLLM (llm env) j (userMessage_of (batches ! j)) (refiner_prompt env) = Inr r)
      \<and> callLLM (llm env) k (userMessage_of (batches ! k)) (refiner_prompt env) = Inl e
    \<longrightarrow> filter (\<lambda>x. is_Called x \<or> is_Waited x) (fst (runExtraction env turns))
          = concat (map (\<lambda>j. [Called j (userMessage_of (batches ! j)), Waited 2000]) [0..<k])
            @ [Called k (userMessage_of (batches ! k))]
        \<and> filter is_Waited (fst (runExtraction env turns)) = replicate k (Waited 2000))"
proof (intro conjI impI)
  assume "chunkByMarker fullText markerType 1 = Some chunks"
  then show "\<exists>trace results.
           batchExtract lenv fullText markerType extractionLevel onProgress = Some (trace, results)
         \<and> filter (\<lambda>x. is_Called x \<or> is_Waited x) trace
             = concat (map (\<lambda>j. Called j (chunks ! j) # (if j < length chunks - 1 then [Waited 500] else []))
                 [0..<length chunks])
         \<and> filter is_Waited trace = replicate (length chunks - 1) (Waited 500)"
    by (rule pace_batch)
next
  assume a: "has_api_key (llm env)
      \<and> runExtraction_chunkSize (prompt_answer env) = Some chunkSize
      \<and> allMarkdown (number_format env) turns = Inr md
      \<and> runExtraction_chunks md (nat chunkSize) = Some batches
      \<and> (\<forall>j < length batches.
            \<exists>r. callLLM (llm env) j (userMessage_of (batches ! j)) (refiner_prompt env) = Inr r)"
  then have h: "has_api_key (llm env)"
      "runExtraction_chunkSize (prompt_answer env) = Some chunkSize"
      "allMarkdown (number_format env) turns = Inr md"
      "runExtraction_chunks md (nat chunkSize) = Some batches"
      "\<forall>j < length batches.
            \<exists>r. callLLM (llm env) j (userMessage_of (batches ! j)) (refiner_prompt env) = Inr r"
    by simp_all
  show "filter (\<lambda>x. is_Called x \<or> is_Waited x) (fst (runExtraction env turns))
          = concat (map (\<lambda>j. Called j (userMessage_of (batches ! j))
                               # (if j < length batches - 1 then [Waited 2000] else []))
              [0..<length batches])"
    by (rule pace_ok(1)[OF h])
  show "filter is_Waited (fst (runExtraction env turns)) = replicate (length batches - 1) (Waited 2000)"
    by (rule pace_ok(2)[OF h])
next
  assume a: "has_api_key (llm env)
      \<and> runExtraction_chunkSize (prompt_answer env) = Some chunkSize
      \<and> allMarkdown (number_format env) turns = Inr md
      \<and> runExtraction_chunks md (nat chunkSize) = Some batches
      \<and> k < length batches
      \<and> (\<forall>j < k. \<exists>r. callLLM (llm env) j (userMessage_of (batches ! j)) (refiner_prompt env) = Inr r)
      \<and> callLLM (llm env) k (userMessage_of (batches ! k)) (refiner_prompt env) = Inl e"
  then have h: "has_api_key (llm env)"
      "runExtraction_chunkSize (prompt_answer env) = Some chunkSize"
      "allMarkdown (number_format env) turns = Inr md"
      "runExtraction_chunks md (nat chunkSize) = Some batches"
      "k < length batches"
      "\<forall>j < k. \<exists>r. callLLM (llm env) j (userMessage_of (batches ! j)) (refiner_prompt env) = Inr r"
      "callLLM (llm env) k (userMessage_of (batches ! k)) (refiner_prompt env) = Inl e"
    by simp_all
  show "filter (\<lambda>x. is_Called x \<or> is_Waited x) (fst (runExtraction env turns))
          = concat (map (\<lambda>j. [Called j (userMessage_of (batches ! j)), Waited 2000]) [0..<k])
            @ [Called k (userMessage_of (batches ! k))]"
    by (rule pace_fail(1)[OF h])
  show "filter is_Waited (fst (runExtraction env turns)) = replicate k (Waited 2000)"
    by (rule pace_fail(2)[OF h])
qed

theorem pacing_delays_witness:
  "filter is_Waited (fst (runExtraction (example_run_env (\<lambda>i. False)) example_turns))
     = [Waited 2000, Waited 2000]
   \<and> filter is_Waited (fst (runExtraction (example_run_env (\<lambda>i. i = 1)) example_turns))
     = [Waited 2000]
   \<and> (\<exists>trace results.
         batchExtract example_lite_env example_text (js ''turn'') (js ''micro'') False
           = Some (trace, results)
       \<and> filter is_Waited trace = [Waited 500, Waited 500])"
proof -
  let ?md = "js ''## ['' @ [0xD134] @ js '' 0]\<newline>\<newline>a\<newline>\<newline>## ['' @ [0xD134]
            @ js '' 0]\<newline>\<newline>b\<newline>\<newline>## ['' @ [0xD134] @ js '' 0]\<newline>\<newline>c''"
  let ?bs = "[js ''## ['' @ [0xD134] @ js '' 0]\<newline>\<newline>a\<newline>\<newline>'',
             js ''## ['' @ [0xD134] @ js '' 0]\<newline>\<newline>b\<newline>\<newline>'',
             js ''## ['' @ [0xD134] @ js '' 0]\<newline>\<newline>c'']"
  let ?cs = "[js ''##['' @ [0xD134] @ js ''1]a'', js ''##['' @ [0xD134] @ js ''2]b'',
             js ''##['' @ [0xD134] @ js ''3]c'']"
  let ?ok = "example_run_env (\<lambda>i. False)" and ?ko = "example_run_env (\<lambda>i. i = 1)"
  note ok = pacing_delays[where env = ?ok and turns = example_turns and chunkSize = 1
      and md = ?md and batches = ?bs and k = 0 and e = MissingApiKey
      and fullText = example_text and markerType = "js ''turn''" and chunks = ?cs
      and lenv = example_lite_env and extractionLevel = "js ''micro''" and onProgress = False]
  note ko = pacing_delays[where env = ?ko and turns = example_turns and chunkSize = 1
      and md = ?md and batches = ?bs and k = 1 and e = "HttpFailure 500 (js ''overloaded'')"
      and fullText = example_text and markerType = "js ''turn''" and chunks = ?cs
      and lenv = example_lite_env and extractionLevel = "js ''micro''" and onProgress = False]
  have all: "\<forall>j < length ?bs.
      \<exists>r. callLLM (llm ?ok) j (userMessage_of (?bs ! j)) (refiner_prompt ?ok) = Inr r"
    by (simp add: example_call)
  have "filter is_Waited (fst (runExtraction ?ok example_turns)) = replicate (length ?bs - 1) (Waited 2000)"
    by (rule ok[THEN conjunct2, THEN conjunct1, THEN mp, THEN conjunct2])
       (intro conjI example_facts example_batches all)
  then have A: "filter is_Waited (fst (runExtraction ?ok example_turns)) = [Waited 2000, Waited 2000]"
    by (simp add: numeral_2_eq_2)
  have k: "(1::nat) < length ?bs" by simp
  have before: "\<forall>j < 1. \<exists>r. callLLM (llm ?ko) j (userMessage_of (?bs ! j)) (refiner_prompt ?ko) = Inr r"
    by (simp add: example_call)
  have at: "callLLM (llm ?ko) 1 (userMessage_of (?bs ! 1)) (refiner_prompt ?ko)
              = Inl (HttpFailure 500 (js ''overloaded''))"
    by (simp add: example_call)
  have "filter is_Waited (fst (runExtraction ?ko example_turns)) = replicate 1 (Waited 2000)"
    by (rule ko[THEN conjunct2, THEN conjunct2, THEN mp, THEN conjunct2])
       (intro conjI example_facts example_batches k before at)
  then have B: "filter is_Waited (fst (runExtraction ?ko example_turns)) = [Waited 2000]"
    by simp
  have "\<exists>trace results.
           batchExtract example_lite_env example_text (js ''turn'') (js ''micro'') False = Some (trace, results)
         \<and> filter (\<lambda>x. is_Called x \<or> is_Waited x) trace
             = concat (map (\<lambda>j. Called j (?cs ! j) # (if j < length ?cs - 1 then [Waited 500] else []))
                 [0..<length ?cs])
         \<and> filter is_Waited trace = replicate (length ?cs - 1) (Waited 500)"
    by (rule ok[THEN conjunct1, THEN mp]) (rule example_batch_facts(1))
  then obtain trace results where
    C: "batchExtract example_lite_env example_text (js ''turn'') (js ''micro'') False = Some (trace, results)"
      "filter is_Waited trace = replicate (length ?cs - 1) (Waited 500)"
    by (elim exE conjE)
  from C(2) have C2: "filter is_Waited trace = [Waited 500, Waited 500]"
    by (simp add: numeral_2_eq_2)
  show ?thesis
    by (intro conjI exI[of _ trace] exI[of _ results]) (rule A B C(1) C2)+
qed

text \<open>
  The claim as stated, \<open>b - 1\<close> delays in every run with \<open>b\<close> batches, fails on a
  run of \<open>runExtraction\<close> with three batches whose first call fails: no delay is
  awaited.
\<close>

theorem pacing_delays_counterexample:
  "runExtraction_chunks
       (js ''## ['' @ [0xD134] @ js '' 0]\<newline>\<newline>a\<newline>\<newline>## ['' @ [0xD134]
            @ js '' 0]\<newline>\<newline>b\<newline>\<newline>## ['' @ [0xD134] @ js '' 0]\<newline>\<newline>c'') (nat 1)
     = Some [js ''## ['' @ [0xD134] @ js '' 0]\<newline>\<newline>a\<newline>\<newline>'',
             js ''## ['' @ [0xD134] @ js '' 0]\<newline>\<newline>b\<newline>\<newline>'',
             js ''## ['' @ [0xD134] @ js '' 0]\<newline>\<newline>c'']
   \<and> filter is_Waited (fst (runExtraction (example_run_env (\<lambda>i. i = 0)) example_turns)) = []
   \<and> length (filter is_Waited (fst (runExtraction (example_run_env (\<lambda>i. i = 0)) example_turns)))
       \<noteq> 3 - 1"
proof -
  let ?bs = "[js ''## ['' @ [0xD134] @ js '' 0]\<newline>\<newline>a\<newline>\<newline>'',
             js ''## ['' @ [0xD134] @ js '' 0]\<newline>\<newline>b\<newline>\<newline>'',
             js ''## ['' @ [0xD134] @ js '' 0]\<newline>\<newline>c'']"
  let ?ko = "example_run_env (\<lambda>i. i = 0)"
  have k: "(0::nat) < length ?bs" by simp
  have before: "\<forall>j < 0. \<exists>r. callLLM (llm ?ko) j (userMessage_of (?bs ! j)) (refiner_prompt ?ko) = Inr r"
    by simp
  have at: "callLLM (llm ?ko) 0 (userMessage_of (?bs ! 0)) (refiner_prompt ?ko)
              = Inl (HttpFailure 500 (js ''overloaded''))"
    by (simp add: example_call)
  have "filter is_Waited (fst (runExtraction ?ko example_turns)) = replicate 0 (Waited 2000)"
    by (rule pace_fail(2)[OF example_facts example_batches k before at])
  then have w: "filter is_Waited (fst (runExtraction ?ko example_turns)) = []" by simp
  then have "length (filter is_Waited (fst (runExtraction ?ko example_turns))) \<noteq> 3 - 1" by simp
  with w example_batches show ?thesis by (intro conjI)
qed

end
